theory Spec2Isabelle
  imports Main "HOL-Library.Word"
begin

section \<open>Storage, elements and effects\<close>

text \<open>
  The development embeds \<^verbatim>\<open>advanced-vector/vector.h\<close>: the class templates
  \<^verbatim>\<open>RawMemory<T>\<close> and \<^verbatim>\<open>Vector<T>\<close>.

  A \<^verbatim>\<open>RawMemory\<close> owns its block exclusively (its copy operations are deleted), so a
  block is modelled by value: the list of its slots. A slot is raw storage or holds a
  constructed object. The null pointer of a block of capacity 0 is the empty list.
  The source's member names end in an underscore, which a constant's name may not:
  \<^verbatim>\<open>buffer_\<close>, \<^verbatim>\<open>capacity_\<close>, \<^verbatim>\<open>data_\<close> and \<^verbatim>\<open>size_\<close> are the fields
  \<open>buffer\<close>, \<open>capacity\<close>, \<open>data\<close> and \<open>size_v\<close>.

  Values of type \<^verbatim>\<open>size_t\<close> are natural numbers: a block that \<^verbatim>\<open>operator new\<close> has
  granted is far smaller than \<open>2 ^ 63\<close> elements, so no \<^verbatim>\<open>size_t\<close> computation of
  the source wraps; the byte size \<^verbatim>\<open>n * sizeof(T)\<close> of a request is not modelled.
  The source's \<^verbatim>\<open>int position\<close> is modelled with its width (32 bits), see
  \<open>int_of_ptrdiff\<close>.
\<close>

datatype 'a slot = Raw | Obj 'a

text \<open>
  \<open>bad_alloc\<close> is the spec's OutOfMemory, \<open>element_exception\<close> its ConstructionFailure
  (whatever an operation of the element type throws). \<open>UB\<close> is a contract violation:
  a failed \<^verbatim>\<open>assert\<close>, or behaviour the language leaves undefined.
\<close>

datatype exn = bad_alloc | element_exception

datatype 'r result = Ok 'r | Throw exn | UB

text \<open>
  What a call does to storage and elements is recorded, in order, in a log.
  \<open>Copy x\<close> and \<open>Move x\<close> are copy and move construction from an object of value \<open>x\<close>,
  \<open>Construct x\<close> construction from other arguments, \<open>ValueInit x\<close> value-initialisation,
  \<open>CopyAssign x\<close> and \<open>MoveAssign x\<close> assignment of the value \<open>x\<close>, \<open>Destroy x\<close> the
  destructor of an object whose value is \<open>x\<close>; \<open>New n\<close> and \<open>Delete n\<close> are
  \<^verbatim>\<open>operator new\<close> and \<^verbatim>\<open>operator delete\<close> of a block of \<open>n\<close> slots.
\<close>

datatype 'a event =
    New nat | Delete nat
  | ValueInit 'a | Construct 'a | Copy 'a | Move 'a
  | CopyAssign 'a | MoveAssign 'a | Destroy 'a

text \<open>
  Every operation that may throw consults the fault script \<open>faults\<close>: the head of the
  list says whether this operation throws, and an exhausted script never throws. Any
  run of the program consults it finitely often, so quantifying over all scripts covers
  every behaviour of every element type and allocator.
\<close>

record 'a world =
  faults :: "bool list"
  log :: "'a event list"

definition consult :: "'a world \<Rightarrow> bool \<times> 'a world" where
  "consult w = (case faults w of [] \<Rightarrow> (False, w) | b # bs \<Rightarrow> (b, w\<lparr>faults := bs\<rparr>))"

definition emit :: "'a event \<Rightarrow> 'a world \<Rightarrow> 'a world" where
  "emit e w = w\<lparr>log := log w @ [e]\<rparr>"

text \<open>
  The element type \<^verbatim>\<open>T\<close>: the two traits the source queries
  (\<^verbatim>\<open>std::is_nothrow_move_constructible_v<T>\<close>, \<^verbatim>\<open>std::is_copy_constructible_v<T>\<close>), the
  value of \<^verbatim>\<open>T()\<close>, and the value an object is left with after it has been moved from.
  Copies and moves carry the value over; a move construction that is \<^verbatim>\<open>noexcept\<close>
  does not consult the script. A throwing operation has no effect on its operands.
\<close>

record 'a elem_type =
  nothrow_move_constructible :: bool
  copy_constructible :: bool
  value_init :: 'a
  moved_from :: "'a \<Rightarrow> 'a"

definition fallible :: "'a event \<Rightarrow> 'a world \<Rightarrow> bool \<times> 'a world" where
  "fallible e w = (case consult w of (True, w1) \<Rightarrow> (False, w1) | (False, w1) \<Rightarrow> (True, emit e w1))"

definition copy_construct :: "'a \<Rightarrow> 'a world \<Rightarrow> bool \<times> 'a world" where
  "copy_construct x w = fallible (Copy x) w"

definition move_construct :: "'a elem_type \<Rightarrow> 'a \<Rightarrow> 'a world \<Rightarrow> bool \<times> 'a world" where
  "move_construct T x w =
     (if nothrow_move_constructible T then (True, emit (Move x) w) else fallible (Move x) w)"

definition value_construct :: "'a elem_type \<Rightarrow> 'a world \<Rightarrow> bool \<times> 'a world" where
  "value_construct T w = fallible (ValueInit (value_init T)) w"

definition copy_assign :: "'a \<Rightarrow> 'a world \<Rightarrow> bool \<times> 'a world" where
  "copy_assign x w = fallible (CopyAssign x) w"

definition move_assign :: "'a \<Rightarrow> 'a world \<Rightarrow> bool \<times> 'a world" where
  "move_assign x w = fallible (MoveAssign x) w"

text \<open>
  The arguments \<^verbatim>\<open>Args&&... args\<close> of \<^verbatim>\<open>Emplace\<close>: a \<^verbatim>\<open>const T&\<close> (copy construction),
  a \<^verbatim>\<open>T&&\<close> (move construction), or anything else a constructor of \<^verbatim>\<open>T\<close> takes. Each
  carries the value of the object it constructs.
\<close>

datatype 'a args = ByCopy 'a | ByMove 'a | ByCtor 'a

fun arg_value :: "'a args \<Rightarrow> 'a" where
  "arg_value (ByCopy x) = x"
| "arg_value (ByMove x) = x"
| "arg_value (ByCtor x) = x"

fun construct :: "'a elem_type \<Rightarrow> 'a args \<Rightarrow> 'a world \<Rightarrow> bool \<times> 'a world" where
  "construct T (ByCopy x) w = copy_construct x w"
| "construct T (ByMove x) w = move_construct T x w"
| "construct T (ByCtor x) w = fallible (Construct x) w"


section \<open>The library algorithms the source calls\<close>

text \<open>
  An iterator of the source is a pointer into a block: here the block (a slot list)
  and an index. Each algorithm returns its status, the blocks it wrote and the world.
  Reading or destroying a slot that holds no object, assigning to one, and any access
  outside the block are undefined.
\<close>

definition destroy_at :: "'a slot list \<Rightarrow> nat \<Rightarrow> 'a world \<Rightarrow> unit result \<times> 'a slot list \<times> 'a world" where
  "destroy_at buf i w =
     (if i < length buf then
        (case buf ! i of
           Raw \<Rightarrow> (UB, buf, w)
         | Obj x \<Rightarrow> (Ok (), buf[i := Raw], emit (Destroy x) w))
      else (UB, buf, w))"

fun destroy_n :: "'a slot list \<Rightarrow> nat \<Rightarrow> nat \<Rightarrow> 'a world \<Rightarrow> unit result \<times> 'a slot list \<times> 'a world" where
  "destroy_n buf first 0 w = (Ok (), buf, w)"
| "destroy_n buf first (Suc n) w =
     (case destroy_at buf first w of
        (Ok u, buf1, w1) \<Rightarrow> destroy_n buf1 (Suc first) n w1
      | (Throw e, buf1, w1) \<Rightarrow> (Throw e, buf1, w1)
      | (UB, buf1, w1) \<Rightarrow> (UB, buf1, w1))"

text \<open>
  \<^verbatim>\<open>std::uninitialized_copy_n\<close>, \<^verbatim>\<open>std::uninitialized_move_n\<close> and
  \<^verbatim>\<open>std::uninitialized_value_construct_n\<close> destroy the objects they have constructed
  when a construction throws, and rethrow.
\<close>

fun uninitialized_copy_n ::
  "'a slot list \<Rightarrow> nat \<Rightarrow> nat \<Rightarrow> 'a slot list \<Rightarrow> nat \<Rightarrow> 'a world
     \<Rightarrow> unit result \<times> 'a slot list \<times> 'a world" where
  "uninitialized_copy_n src first 0 dst d_first w = (Ok (), dst, w)"
| "uninitialized_copy_n src first (Suc n) dst d_first w =
     (if first < length src \<and> d_first < length dst then
        (case src ! first of
           Raw \<Rightarrow> (UB, dst, w)
         | Obj x \<Rightarrow>
             (case copy_construct x w of
                (False, w1) \<Rightarrow> (Throw element_exception, dst, w1)
              | (True, w1) \<Rightarrow>
                  (case uninitialized_copy_n src (Suc first) n (dst[d_first := Obj x]) (Suc d_first) w1 of
                     (Ok u, dst2, w2) \<Rightarrow> (Ok u, dst2, w2)
                   | (Throw e, dst2, w2) \<Rightarrow> (Throw e, dst2[d_first := Raw], emit (Destroy x) w2)
                   | (UB, dst2, w2) \<Rightarrow> (UB, dst2, w2))))
      else (UB, dst, w))"

fun uninitialized_move_n ::
  "'a elem_type \<Rightarrow> 'a slot list \<Rightarrow> nat \<Rightarrow> nat \<Rightarrow> 'a slot list \<Rightarrow> nat \<Rightarrow> 'a world
     \<Rightarrow> unit result \<times> 'a slot list \<times> 'a slot list \<times> 'a world" where
  "uninitialized_move_n T src first 0 dst d_first w = (Ok (), src, dst, w)"
| "uninitialized_move_n T src first (Suc n) dst d_first w =
     (if first < length src \<and> d_first < length dst then
        (case src ! first of
           Raw \<Rightarrow> (UB, src, dst, w)
         | Obj x \<Rightarrow>
             (case move_construct T x w of
                (False, w1) \<Rightarrow> (Throw element_exception, src, dst, w1)
              | (True, w1) \<Rightarrow>
                  (case uninitialized_move_n T (src[first := Obj (moved_from T x)]) (Suc first) n
                          (dst[d_first := Obj x]) (Suc d_first) w1 of
                     (Ok u, src2, dst2, w2) \<Rightarrow> (Ok u, src2, dst2, w2)
                   | (Throw e, src2, dst2, w2) \<Rightarrow>
                       (Throw e, src2, dst2[d_first := Raw], emit (Destroy x) w2)
                   | (UB, src2, dst2, w2) \<Rightarrow> (UB, src2, dst2, w2))))
      else (UB, src, dst, w))"

fun uninitialized_value_construct_n ::
  "'a elem_type \<Rightarrow> 'a slot list \<Rightarrow> nat \<Rightarrow> nat \<Rightarrow> 'a world
     \<Rightarrow> unit result \<times> 'a slot list \<times> 'a world" where
  "uninitialized_value_construct_n T buf first 0 w = (Ok (), buf, w)"
| "uninitialized_value_construct_n T buf first (Suc n) w =
     (if first < length buf then
        (case value_construct T w of
           (False, w1) \<Rightarrow> (Throw element_exception, buf, w1)
         | (True, w1) \<Rightarrow>
             (case uninitialized_value_construct_n T (buf[first := Obj (value_init T)]) (Suc first) n w1 of
                (Ok u, buf2, w2) \<Rightarrow> (Ok u, buf2, w2)
              | (Throw e, buf2, w2) \<Rightarrow>
                  (Throw e, buf2[first := Raw], emit (Destroy (value_init T)) w2)
              | (UB, buf2, w2) \<Rightarrow> (UB, buf2, w2)))
      else (UB, buf, w))"

text \<open>\<^verbatim>\<open>std::copy_n\<close> copy-assigns; what it has assigned stays assigned when it throws.\<close>

fun copy_n ::
  "'a slot list \<Rightarrow> nat \<Rightarrow> nat \<Rightarrow> 'a slot list \<Rightarrow> nat \<Rightarrow> 'a world
     \<Rightarrow> unit result \<times> 'a slot list \<times> 'a world" where
  "copy_n src first 0 dst d_first w = (Ok (), dst, w)"
| "copy_n src first (Suc n) dst d_first w =
     (if first < length src \<and> d_first < length dst then
        (case (src ! first, dst ! d_first) of
           (Obj x, Obj y) \<Rightarrow>
             (case copy_assign x w of
                (False, w1) \<Rightarrow> (Throw element_exception, dst, w1)
              | (True, w1) \<Rightarrow> copy_n src (Suc first) n (dst[d_first := Obj x]) (Suc d_first) w1)
         | (Obj x, Raw) \<Rightarrow> (UB, dst, w)
         | (Raw, y) \<Rightarrow> (UB, dst, w))
      else (UB, dst, w))"

text \<open>
  \<^verbatim>\<open>std::move(first, last, d_first)\<close> move-assigns upwards from \<open>first\<close>,
  \<^verbatim>\<open>std::move_backward(first, last, d_last)\<close> downwards from \<open>last - 1\<close>; both work
  inside one block, and a \<open>lastp\<close> (the source's \<^verbatim>\<open>last\<close>) before \<open>first\<close> is no range.
\<close>

fun move_n ::
  "'a elem_type \<Rightarrow> 'a slot list \<Rightarrow> nat \<Rightarrow> nat \<Rightarrow> nat \<Rightarrow> 'a world
     \<Rightarrow> unit result \<times> 'a slot list \<times> 'a world" where
  "move_n T buf first 0 d_first w = (Ok (), buf, w)"
| "move_n T buf first (Suc n) d_first w =
     (if first < length buf \<and> d_first < length buf then
        (case (buf ! first, buf ! d_first) of
           (Obj x, Obj y) \<Rightarrow>
             (case move_assign x w of
                (False, w1) \<Rightarrow> (Throw element_exception, buf, w1)
              | (True, w1) \<Rightarrow>
                  move_n T (buf[d_first := Obj x, first := Obj (moved_from T x)]) (Suc first) n (Suc d_first) w1)
         | (Obj x, Raw) \<Rightarrow> (UB, buf, w)
         | (Raw, y) \<Rightarrow> (UB, buf, w))
      else (UB, buf, w))"

definition std_move ::
  "'a elem_type \<Rightarrow> 'a slot list \<Rightarrow> nat \<Rightarrow> nat \<Rightarrow> nat \<Rightarrow> 'a world
     \<Rightarrow> unit result \<times> 'a slot list \<times> 'a world" where
  "std_move T buf first lastp d_first w =
     (if first \<le> lastp then move_n T buf first (lastp - first) d_first w else (UB, buf, w))"

fun move_backward_n ::
  "'a elem_type \<Rightarrow> 'a slot list \<Rightarrow> nat \<Rightarrow> nat \<Rightarrow> nat \<Rightarrow> 'a world
     \<Rightarrow> unit result \<times> 'a slot list \<times> 'a world" where
  "move_backward_n T buf first 0 d_last w = (Ok (), buf, w)"
| "move_backward_n T buf first (Suc n) d_last w =
     (if first + n < length buf \<and> 0 < d_last \<and> d_last - 1 < length buf then
        (case (buf ! (first + n), buf ! (d_last - 1)) of
           (Obj x, Obj y) \<Rightarrow>
             (case move_assign x w of
                (False, w1) \<Rightarrow> (Throw element_exception, buf, w1)
              | (True, w1) \<Rightarrow>
                  move_backward_n T (buf[d_last - 1 := Obj x, first + n := Obj (moved_from T x)])
                    first n (d_last - 1) w1)
         | (Obj x, Raw) \<Rightarrow> (UB, buf, w)
         | (Raw, y) \<Rightarrow> (UB, buf, w))
      else (UB, buf, w))"

definition move_backward ::
  "'a elem_type \<Rightarrow> 'a slot list \<Rightarrow> nat \<Rightarrow> nat \<Rightarrow> nat \<Rightarrow> 'a world
     \<Rightarrow> unit result \<times> 'a slot list \<times> 'a world" where
  "move_backward T buf first lastp d_last w =
     (if first \<le> lastp then move_backward_n T buf first (lastp - first) d_last w else (UB, buf, w))"


section \<open>RawMemory\<close>

record 'a RawMemory =
  buffer :: "'a slot list"
  capacity :: nat

text \<open>\<^verbatim>\<open>Allocate\<close> calls \<^verbatim>\<open>operator new\<close> only for \<open>n \<noteq> 0\<close>; that call may throw.\<close>

definition Allocate :: "nat \<Rightarrow> 'a world \<Rightarrow> 'a slot list result \<times> 'a world" where
  "Allocate n w =
     (if n \<noteq> 0 then
        (case consult w of
           (True, w1) \<Rightarrow> (Throw bad_alloc, w1)
         | (False, w1) \<Rightarrow> (Ok (replicate n Raw), emit (New n) w1))
      else (Ok [], w))"

text \<open>\<^verbatim>\<open>operator delete\<close> of the null pointer does nothing.\<close>

definition Deallocate :: "'a slot list \<Rightarrow> 'a world \<Rightarrow> 'a world" where
  "Deallocate buf w = (if buf = [] then w else emit (Delete (length buf)) w)"

definition RawMemory_default :: "'a RawMemory" where
  "RawMemory_default = \<lparr>buffer = [], capacity = 0\<rparr>"

definition RawMemory_new :: "nat \<Rightarrow> 'a world \<Rightarrow> 'a RawMemory result \<times> 'a world" where
  "RawMemory_new n w =
     (case Allocate n w of
        (Ok b, w1) \<Rightarrow> (Ok \<lparr>buffer = b, capacity = n\<rparr>, w1)
      | (Throw e, w1) \<Rightarrow> (Throw e, w1)
      | (UB, w1) \<Rightarrow> (UB, w1))"

text \<open>The move constructor returns the new object and what is left of \<open>other\<close>.\<close>

definition RawMemory_move :: "'a RawMemory \<Rightarrow> 'a RawMemory \<times> 'a RawMemory" where
  "RawMemory_move other = (\<lparr>buffer = buffer other, capacity = capacity other\<rparr>, \<lparr>buffer = [], capacity = 0\<rparr>)"

definition RawMemory_dtor :: "'a RawMemory \<Rightarrow> 'a world \<Rightarrow> 'a world" where
  "RawMemory_dtor m w = Deallocate (buffer m) w"

definition RawMemory_Swap :: "'a RawMemory \<Rightarrow> 'a RawMemory \<Rightarrow> 'a RawMemory \<times> 'a RawMemory" where
  "RawMemory_Swap this other =
     (\<lparr>buffer = buffer other, capacity = capacity other\<rparr>, \<lparr>buffer = buffer this, capacity = capacity this\<rparr>)"

section \<open>Vector\<close>

record 'a Vector =
  data :: "'a RawMemory"
  size_v :: nat

definition with_buffer :: "'a Vector \<Rightarrow> 'a slot list \<Rightarrow> 'a Vector" where
  "with_buffer this b = this\<lparr>data := (data this)\<lparr>buffer := b\<rparr>\<rparr>"

definition Size :: "'a Vector \<Rightarrow> nat" where
  "Size this = size_v this"

definition Capacity :: "'a Vector \<Rightarrow> nat" where
  "Capacity this = capacity (data this)"

text \<open>
  A member function takes the object and the world and returns its status (with its
  value, if it has one), the object and the world. With \<open>Ok\<close> it has returned, with
  \<open>Throw\<close> an exception has left it; with \<open>UB\<close> the object is shown as its members
  were when the behaviour became undefined. A constructor returns the new object.
\<close>

definition Vector_default :: "'a Vector" where
  "Vector_default = \<lparr>data = RawMemory_default, size_v = 0\<rparr>"

definition Vector_sized :: "'a elem_type \<Rightarrow> nat \<Rightarrow> 'a world \<Rightarrow> 'a Vector result \<times> 'a world" where
  "Vector_sized T n w =
     (case RawMemory_new n w of
        (Ok m, w1) \<Rightarrow>
          (case uninitialized_value_construct_n T (buffer m) 0 n w1 of
             (Ok u, b, w2) \<Rightarrow> (Ok \<lparr>data = m\<lparr>buffer := b\<rparr>, size_v = n\<rparr>, w2)
           | (Throw e, b, w2) \<Rightarrow> (Throw e, RawMemory_dtor (m\<lparr>buffer := b\<rparr>) w2)
           | (UB, b, w2) \<Rightarrow> (UB, w2))
      | (Throw e, w1) \<Rightarrow> (Throw e, w1)
      | (UB, w1) \<Rightarrow> (UB, w1))"

definition Vector_copy :: "'a Vector \<Rightarrow> 'a world \<Rightarrow> 'a Vector result \<times> 'a world" where
  "Vector_copy other w =
     (case RawMemory_new (size_v other) w of
        (Ok m, w1) \<Rightarrow>
          (case uninitialized_copy_n (buffer (data other)) 0 (size_v other) (buffer m) 0 w1 of
             (Ok u, b, w2) \<Rightarrow> (Ok \<lparr>data = m\<lparr>buffer := b\<rparr>, size_v = size_v other\<rparr>, w2)
           | (Throw e, b, w2) \<Rightarrow> (Throw e, RawMemory_dtor (m\<lparr>buffer := b\<rparr>) w2)
           | (UB, b, w2) \<Rightarrow> (UB, w2))
      | (Throw e, w1) \<Rightarrow> (Throw e, w1)
      | (UB, w1) \<Rightarrow> (UB, w1))"

definition Vector_move :: "'a Vector \<Rightarrow> 'a Vector \<times> 'a Vector" where
  "Vector_move other =
     (case RawMemory_move (data other) of
        (m, m_other) \<Rightarrow> (\<lparr>data = m, size_v = size_v other\<rparr>, \<lparr>data = m_other, size_v = 0\<rparr>))"

definition Vector_dtor :: "'a Vector \<Rightarrow> 'a world \<Rightarrow> unit result \<times> 'a world" where
  "Vector_dtor this w =
     (case destroy_n (buffer (data this)) 0 (size_v this) w of
        (Ok u, b, w1) \<Rightarrow> (Ok (), RawMemory_dtor ((data this)\<lparr>buffer := b\<rparr>) w1)
      | (Throw e, b, w1) \<Rightarrow> (Throw e, w1)
      | (UB, b, w1) \<Rightarrow> (UB, w1))"

definition Swap :: "'a Vector \<Rightarrow> 'a Vector \<Rightarrow> 'a Vector \<times> 'a Vector" where
  "Swap this other =
     (case RawMemory_Swap (data this) (data other) of
        (m, m_other) \<Rightarrow> (\<lparr>data = m, size_v = size_v other\<rparr>, \<lparr>data = m_other, size_v = size_v this\<rparr>))"

text \<open>
  Copy assignment compares the addresses of the two objects; they are arguments of
  the model. \<open>rhs\<close> is a \<^verbatim>\<open>const Vector&\<close>: nothing is written through it, so it is
  not returned.
\<close>

definition assign_copy ::
  "nat \<Rightarrow> 'a Vector \<Rightarrow> nat \<Rightarrow> 'a Vector \<Rightarrow> 'a world \<Rightarrow> unit result \<times> 'a Vector \<times> 'a world" where
  "assign_copy this_addr this rhs_addr rhs w =
     (if this_addr \<noteq> rhs_addr then
        (if size_v rhs \<le> capacity (data this) then
           (let copy_size = min (size_v this) (size_v rhs) in
            case copy_n (buffer (data rhs)) 0 copy_size (buffer (data this)) 0 w of
              (Ok u, b, w1) \<Rightarrow>
                (case (if size_v this > size_v rhs then
                         destroy_n b (size_v rhs) (size_v this - size_v rhs) w1
                       else if size_v this < size_v rhs then
                         uninitialized_copy_n (buffer (data rhs)) (size_v this) (size_v rhs - size_v this)
                           b (size_v this) w1
                       else (Ok (), b, w1)) of
                   (Ok u2, b2, w2) \<Rightarrow> (Ok (), (with_buffer this b2)\<lparr>size_v := size_v rhs\<rparr>, w2)
                 | (Throw e, b2, w2) \<Rightarrow> (Throw e, with_buffer this b2, w2)
                 | (UB, b2, w2) \<Rightarrow> (UB, with_buffer this b2, w2))
            | (Throw e, b, w1) \<Rightarrow> (Throw e, with_buffer this b, w1)
            | (UB, b, w1) \<Rightarrow> (UB, with_buffer this b, w1))
         else
           (case Vector_copy rhs w of
              (Ok rhs_copy, w1) \<Rightarrow>
                (case Swap this rhs_copy of
                   (this1, rhs_copy1) \<Rightarrow>
                     (case Vector_dtor rhs_copy1 w1 of
                        (Ok u, w2) \<Rightarrow> (Ok (), this1, w2)
                      | (Throw e, w2) \<Rightarrow> (Throw e, this1, w2)
                      | (UB, w2) \<Rightarrow> (UB, this1, w2)))
            | (Throw e, w1) \<Rightarrow> (Throw e, this, w1)
            | (UB, w1) \<Rightarrow> (UB, this, w1)))
      else (Ok (), this, w))"

definition assign_move :: "'a Vector \<Rightarrow> 'a Vector \<Rightarrow> 'a Vector \<times> 'a Vector" where
  "assign_move this rhs = Swap this rhs"

text \<open>
  \<^verbatim>\<open>Reserve\<close>: the relocation is chosen by \<^verbatim>\<open>if constexpr\<close>; \<^verbatim>\<open>new_data\<close>, which
  holds the old block after the swap, is destroyed on every way out.
\<close>

definition Reserve :: "'a elem_type \<Rightarrow> 'a Vector \<Rightarrow> nat \<Rightarrow> 'a world \<Rightarrow> unit result \<times> 'a Vector \<times> 'a world" where
  "Reserve T this new_capacity w =
     (if new_capacity \<le> capacity (data this) then (Ok (), this, w)
      else
        (case RawMemory_new new_capacity w of
           (Ok new_data, w1) \<Rightarrow>
             (case (if nothrow_move_constructible T \<or> \<not> copy_constructible T then
                      uninitialized_move_n T (buffer (data this)) 0 (size_v this) (buffer new_data) 0 w1
                    else
                      (case uninitialized_copy_n (buffer (data this)) 0 (size_v this) (buffer new_data) 0 w1 of
                         (r, dst, w2) \<Rightarrow> (r, buffer (data this), dst, w2))) of
                (Ok u, src, dst, w2) \<Rightarrow>
                  (case destroy_n src 0 (size_v this) w2 of
                     (Ok u2, src2, w3) \<Rightarrow>
                       (case RawMemory_Swap ((data this)\<lparr>buffer := src2\<rparr>) (new_data\<lparr>buffer := dst\<rparr>) of
                          (m, new_data1) \<Rightarrow> (Ok (), this\<lparr>data := m\<rparr>, RawMemory_dtor new_data1 w3))
                   | (Throw e, src2, w3) \<Rightarrow>
                       (Throw e, with_buffer this src2, RawMemory_dtor (new_data\<lparr>buffer := dst\<rparr>) w3)
                   | (UB, src2, w3) \<Rightarrow> (UB, with_buffer this src2, w3))
              | (Throw e, src, dst, w2) \<Rightarrow>
                  (Throw e, with_buffer this src, RawMemory_dtor (new_data\<lparr>buffer := dst\<rparr>) w2)
              | (UB, src, dst, w2) \<Rightarrow> (UB, with_buffer this src, w2))
         | (Throw e, w1) \<Rightarrow> (Throw e, this, w1)
         | (UB, w1) \<Rightarrow> (UB, this, w1)))"

definition Resize :: "'a elem_type \<Rightarrow> 'a Vector \<Rightarrow> nat \<Rightarrow> 'a world \<Rightarrow> unit result \<times> 'a Vector \<times> 'a world" where
  "Resize T this new_size w =
     (if new_size < size_v this then
        (case destroy_n (buffer (data this)) new_size (size_v this - new_size) w of
           (Ok u, b, w1) \<Rightarrow> (Ok (), (with_buffer this b)\<lparr>size_v := new_size\<rparr>, w1)
         | (Throw e, b, w1) \<Rightarrow> (Throw e, with_buffer this b, w1)
         | (UB, b, w1) \<Rightarrow> (UB, with_buffer this b, w1))
      else
        (case (if new_size > capacity (data this) then
                 (let new_capacity = max (capacity (data this) * 2) new_size
                  in Reserve T this new_capacity w)
               else (Ok (), this, w)) of
           (Ok u, this1, w1) \<Rightarrow>
             (case uninitialized_value_construct_n T (buffer (data this1)) (size_v this1)
                     (new_size - size_v this1) w1 of
                (Ok u2, b, w2) \<Rightarrow> (Ok (), (with_buffer this1 b)\<lparr>size_v := new_size\<rparr>, w2)
              | (Throw e, b, w2) \<Rightarrow> (Throw e, with_buffer this1 b, w2)
              | (UB, b, w2) \<Rightarrow> (UB, with_buffer this1 b, w2))
         | (Throw e, this1, w1) \<Rightarrow> (Throw e, this1, w1)
         | (UB, this1, w1) \<Rightarrow> (UB, this1, w1)))"

definition PopBack :: "'a Vector \<Rightarrow> 'a world \<Rightarrow> unit result \<times> 'a Vector \<times> 'a world" where
  "PopBack this w =
     (if size_v this \<noteq> 0 then
        (case destroy_at (buffer (data this)) (size_v this - 1) w of
           (Ok u, b, w1) \<Rightarrow> (Ok (), (with_buffer this b)\<lparr>size_v := size_v this - 1\<rparr>, w1)
         | (Throw e, b, w1) \<Rightarrow> (Throw e, with_buffer this b, w1)
         | (UB, b, w1) \<Rightarrow> (UB, with_buffer this b, w1))
      else (Ok (), this, w))"


text \<open>
  \<^verbatim>\<open>int position = pos - begin();\<close> converts the pointer difference (a 64-bit
  \<^verbatim>\<open>ptrdiff_t\<close>) to a 32-bit \<^verbatim>\<open>int\<close>: the low 32 bits, read as two's complement.
  Adding a negative \<open>position\<close> to \<^verbatim>\<open>begin()\<close> leaves the block: undefined.
\<close>

definition int_of_ptrdiff :: "nat \<Rightarrow> int" where
  "int_of_ptrdiff d = sint (word_of_nat d :: 32 word)"

text \<open>
  The \<^verbatim>\<open>try\<close> block of \<^verbatim>\<open>EmplaceWithoutRelocation\<close>. The local \<^verbatim>\<open>value\<close> is destroyed
  when its scope is left, by return or by exception.
\<close>

definition EmplaceWithoutRelocation_try ::
  "'a elem_type \<Rightarrow> 'a Vector \<Rightarrow> nat \<Rightarrow> 'a args \<Rightarrow> 'a world \<Rightarrow> unit result \<times> 'a Vector \<times> 'a world" where
  "EmplaceWithoutRelocation_try T this pos a w =
     (let buf = buffer (data this); n = size_v this; val = arg_value a in
      if pos \<noteq> n then
        (let position = int_of_ptrdiff pos in
         case construct T a w of
           (False, w1) \<Rightarrow> (Throw element_exception, this, w1)
         | (True, w1) \<Rightarrow>
             (if 0 < n \<and> n < length buf then
                (case buf ! (n - 1) of
                   Raw \<Rightarrow> (UB, this, w1)
                 | Obj x \<Rightarrow>
                     (case move_construct T x w1 of
                        (False, w2) \<Rightarrow> (Throw element_exception, this, emit (Destroy val) w2)
                      | (True, w2) \<Rightarrow>
                          (let buf1 = buf[n - 1 := Obj (moved_from T x), n := Obj x] in
                           if 0 \<le> position then
                             (case move_backward T buf1 (nat position) (n - 1) n w2 of
                                (Ok u, buf2, w3) \<Rightarrow>
                                  (if nat position < length buf2 then
                                     (case buf2 ! nat position of
                                        Raw \<Rightarrow> (UB, with_buffer this buf2, w3)
                                      | Obj y \<Rightarrow>
                                          (case move_assign val w3 of
                                             (False, w4) \<Rightarrow>
                                               (Throw element_exception, with_buffer this buf2,
                                                emit (Destroy val) w4)
                                           | (True, w4) \<Rightarrow>
                                               (Ok (), with_buffer this (buf2[nat position := Obj val]),
                                                emit (Destroy (moved_from T val)) w4)))
                                   else (UB, with_buffer this buf2, w3))
                              | (Throw e, buf2, w3) \<Rightarrow>
                                  (Throw e, with_buffer this buf2, emit (Destroy val) w3)
                              | (UB, buf2, w3) \<Rightarrow> (UB, with_buffer this buf2, w3))
                           else (UB, with_buffer this buf1, w2))))
              else (UB, this, w1)))
      else
        (if n < length buf then
           (case construct T a w of
              (False, w1) \<Rightarrow> (Throw element_exception, this, w1)
            | (True, w1) \<Rightarrow> (Ok (), with_buffer this (buf[n := Obj val]), w1))
         else (UB, this, w)))"

text \<open>
  The handler calls \<^verbatim>\<open>operator delete (end())\<close>, where \<^verbatim>\<open>end()\<close> is
  \<^verbatim>\<open>data_.GetAddress() + size_\<close>. For \<open>size_v this \<noteq> 0\<close> this is not a pointer that
  \<^verbatim>\<open>operator new\<close> returned: undefined. For \<open>size_v this = 0\<close> it is the block
  itself, released while \<open>data\<close> still holds its address: the released block is shown
  as the empty slot list under the unchanged capacity, so that every later access
  through \<open>data\<close> lies outside the block.
\<close>

definition operator_delete_end :: "'a Vector \<Rightarrow> 'a world \<Rightarrow> unit result \<times> 'a Vector \<times> 'a world" where
  "operator_delete_end this w =
     (if size_v this = 0 then (Ok (), with_buffer this [], Deallocate (buffer (data this)) w)
      else (UB, this, w))"

definition EmplaceWithoutRelocation ::
  "'a elem_type \<Rightarrow> 'a Vector \<Rightarrow> nat \<Rightarrow> 'a args \<Rightarrow> 'a world \<Rightarrow> unit result \<times> 'a Vector \<times> 'a world" where
  "EmplaceWithoutRelocation T this pos a w =
     (case EmplaceWithoutRelocation_try T this pos a w of
        (Ok u, this1, w1) \<Rightarrow> (Ok (), this1, w1)
      | (Throw e, this1, w1) \<Rightarrow>
          (case operator_delete_end this1 w1 of
             (Ok u, this2, w2) \<Rightarrow> (Throw e, this2, w2)
           | (Throw e2, this2, w2) \<Rightarrow> (Throw e2, this2, w2)
           | (UB, this2, w2) \<Rightarrow> (UB, this2, w2))
      | (UB, this1, w1) \<Rightarrow> (UB, this1, w1))"

text \<open>
  \<^verbatim>\<open>EmplaceWithRelocation\<close> constructs the new element in the new block first. When a
  later construction throws, the library algorithm destroys what that one call had
  constructed; \<^verbatim>\<open>new_data\<close> then releases the block.
\<close>

definition EmplaceWithRelocation ::
  "'a elem_type \<Rightarrow> 'a Vector \<Rightarrow> nat \<Rightarrow> 'a args \<Rightarrow> 'a world \<Rightarrow> unit result \<times> 'a Vector \<times> 'a world" where
  "EmplaceWithRelocation T this pos a w =
     (let buf = buffer (data this); n = size_v this; position = int_of_ptrdiff pos in
      case RawMemory_new (if n = 0 then 1 else n * 2) w of
        (Ok new_data, w1) \<Rightarrow>
          (if 0 \<le> position \<and> nat position \<le> n \<and> nat position < length (buffer new_data) then
             (let p = nat position in
              case construct T a w1 of
                (False, w2) \<Rightarrow> (Throw element_exception, this, RawMemory_dtor new_data w2)
              | (True, w2) \<Rightarrow>
                  (let dst0 = (buffer new_data)[p := Obj (arg_value a)] in
                   case (if nothrow_move_constructible T \<or> \<not> copy_constructible T then
                           (case uninitialized_move_n T buf 0 p dst0 0 w2 of
                              (Ok u, src1, dst1, w3) \<Rightarrow>
                                uninitialized_move_n T src1 p (n - p) dst1 (p + 1) w3
                            | (Throw e, src1, dst1, w3) \<Rightarrow> (Throw e, src1, dst1, w3)
                            | (UB, src1, dst1, w3) \<Rightarrow> (UB, src1, dst1, w3))
                         else
                           (case uninitialized_copy_n buf 0 p dst0 0 w2 of
                              (Ok u, dst1, w3) \<Rightarrow>
                                (case uninitialized_copy_n buf p (n - p) dst1 (p + 1) w3 of
                                   (r, dst2, w4) \<Rightarrow> (r, buf, dst2, w4))
                            | (Throw e, dst1, w3) \<Rightarrow> (Throw e, buf, dst1, w3)
                            | (UB, dst1, w3) \<Rightarrow> (UB, buf, dst1, w3))) of
                     (Ok u, src, dst, w3) \<Rightarrow>
                       (case destroy_n src 0 n w3 of
                          (Ok u2, src2, w4) \<Rightarrow>
                            (case RawMemory_Swap ((data this)\<lparr>buffer := src2\<rparr>) (new_data\<lparr>buffer := dst\<rparr>) of
                               (m, new_data1) \<Rightarrow> (Ok (), this\<lparr>data := m\<rparr>, RawMemory_dtor new_data1 w4))
                        | (Throw e, src2, w4) \<Rightarrow>
                            (Throw e, with_buffer this src2, RawMemory_dtor (new_data\<lparr>buffer := dst\<rparr>) w4)
                        | (UB, src2, w4) \<Rightarrow> (UB, with_buffer this src2, w4))
                   | (Throw e, src, dst, w3) \<Rightarrow>
                       (Throw e, with_buffer this src, RawMemory_dtor (new_data\<lparr>buffer := dst\<rparr>) w3)
                   | (UB, src, dst, w3) \<Rightarrow> (UB, with_buffer this src, w3)))
           else (UB, this, w1))
      | (Throw e, w1) \<Rightarrow> (Throw e, this, w1)
      | (UB, w1) \<Rightarrow> (UB, this, w1))"

text \<open>
  \<^verbatim>\<open>Emplace\<close> and \<^verbatim>\<open>Erase\<close> take the iterator \<open>pos\<close> as its distance from
  \<^verbatim>\<open>begin()\<close> and return an iterator the same way. Their \<^verbatim>\<open>assert\<close> admits
  \<^verbatim>\<open>pos == cend()\<close> in both.
\<close>

definition Emplace ::
  "'a elem_type \<Rightarrow> 'a Vector \<Rightarrow> nat \<Rightarrow> 'a args \<Rightarrow> 'a world \<Rightarrow> nat result \<times> 'a Vector \<times> 'a world" where
  "Emplace T this pos a w =
     (if pos \<le> size_v this then
        (let position = int_of_ptrdiff pos in
         case (if capacity (data this) > size_v this then EmplaceWithoutRelocation T this pos a w
               else EmplaceWithRelocation T this pos a w) of
           (Ok u, this1, w1) \<Rightarrow>
             (let this2 = this1\<lparr>size_v := size_v this1 + 1\<rparr> in
              if 0 \<le> position \<and> nat position \<le> length (buffer (data this2))
              then (Ok (nat position), this2, w1)
              else (UB, this2, w1))
         | (Throw e, this1, w1) \<Rightarrow> (Throw e, this1, w1)
         | (UB, this1, w1) \<Rightarrow> (UB, this1, w1))
      else (UB, this, w))"

definition Erase ::
  "'a elem_type \<Rightarrow> 'a Vector \<Rightarrow> nat \<Rightarrow> 'a world \<Rightarrow> nat result \<times> 'a Vector \<times> 'a world" where
  "Erase T this pos w =
     (if pos \<le> size_v this then
        (let position = int_of_ptrdiff pos in
         if 0 \<le> position then
           (case std_move T (buffer (data this)) (nat position + 1) (size_v this) (nat position) w of
              (Ok u, b, w1) \<Rightarrow>
                (if 0 < size_v this then
                   (case destroy_at b (size_v this - 1) w1 of
                      (Ok u2, b2, w2) \<Rightarrow>
                        (Ok (nat position), (with_buffer this b2)\<lparr>size_v := size_v this - 1\<rparr>, w2)
                    | (Throw e, b2, w2) \<Rightarrow> (Throw e, with_buffer this b2, w2)
                    | (UB, b2, w2) \<Rightarrow> (UB, with_buffer this b2, w2))
                 else (UB, with_buffer this b, w1))
            | (Throw e, b, w1) \<Rightarrow> (Throw e, with_buffer this b, w1)
            | (UB, b, w1) \<Rightarrow> (UB, with_buffer this b, w1))
         else (UB, this, w))
      else (UB, this, w))"

definition Insert_copy ::
  "'a elem_type \<Rightarrow> 'a Vector \<Rightarrow> nat \<Rightarrow> 'a \<Rightarrow> 'a world \<Rightarrow> nat result \<times> 'a Vector \<times> 'a world" where
  "Insert_copy T this pos v w = Emplace T this pos (ByCopy v) w"

definition Insert_move ::
  "'a elem_type \<Rightarrow> 'a Vector \<Rightarrow> nat \<Rightarrow> 'a \<Rightarrow> 'a world \<Rightarrow> nat result \<times> 'a Vector \<times> 'a world" where
  "Insert_move T this pos v w = Emplace T this pos (ByMove v) w"

text \<open>
  \<^verbatim>\<open>EmplaceBack\<close> dereferences the iterator \<^verbatim>\<open>Emplace\<close> returns; the model returns the
  index of the element referred to.
\<close>

definition EmplaceBack ::
  "'a elem_type \<Rightarrow> 'a Vector \<Rightarrow> 'a args \<Rightarrow> 'a world \<Rightarrow> nat result \<times> 'a Vector \<times> 'a world" where
  "EmplaceBack T this a w =
     (case Emplace T this (size_v this) a w of
        (Ok i, this1, w1) \<Rightarrow> (if i < size_v this1 then (Ok i, this1, w1) else (UB, this1, w1))
      | (Throw e, this1, w1) \<Rightarrow> (Throw e, this1, w1)
      | (UB, this1, w1) \<Rightarrow> (UB, this1, w1))"

definition PushBack ::
  "'a elem_type \<Rightarrow> 'a Vector \<Rightarrow> 'a args \<Rightarrow> 'a world \<Rightarrow> unit result \<times> 'a Vector \<times> 'a world" where
  "PushBack T this a w =
     (case EmplaceBack T this a w of
        (Ok i, this1, w1) \<Rightarrow> (Ok (), this1, w1)
      | (Throw e, this1, w1) \<Rightarrow> (Throw e, this1, w1)
      | (UB, this1, w1) \<Rightarrow> (UB, this1, w1))"

section \<open>Well-formed vectors\<close>

text \<open>
  \<open>mk_vector xs c\<close> is the vector with the elements \<open>xs\<close> in a block of \<open>c\<close> slots:
  objects in the slots below the size, raw storage above.
\<close>

definition mk_vector :: "'a list \<Rightarrow> nat \<Rightarrow> 'a Vector" where
  "mk_vector xs c =
     \<lparr>data = \<lparr>buffer = map Obj xs @ replicate (c - length xs) Raw, capacity = c\<rparr>,
      size_v = length xs\<rparr>"

definition elements :: "'a Vector \<Rightarrow> 'a list" where
  "elements this =
     concat (map (\<lambda>s. case s of Obj x \<Rightarrow> [x] | Raw \<Rightarrow> []) (take (size_v this) (buffer (data this))))"

text \<open>
  \<open>calm k w\<close>: none of the next \<open>k\<close> consultations throws. \<open>advance k evs w\<close>: the
  world after \<open>k\<close> consultations and the events \<open>evs\<close>.
\<close>

definition calm :: "nat \<Rightarrow> 'a world \<Rightarrow> bool" where
  "calm k w \<longleftrightarrow> True \<notin> set (take k (faults w))"

definition advance :: "nat \<Rightarrow> 'a event list \<Rightarrow> 'a world \<Rightarrow> 'a world" where
  "advance k evs w = w\<lparr>faults := drop k (faults w), log := log w @ evs\<rparr>"

text \<open>
  \<open>relocates_by_move T\<close> is the condition of the source's two \<^verbatim>\<open>if constexpr\<close>.
  \<open>move_cost\<close> and \<open>reloc_cost\<close> count the consultations of \<open>n\<close> move constructions
  and of the relocation of \<open>n\<close> elements, \<open>reloc_events\<close> are the events of a
  relocation, \<open>reloc_left\<close> the values it leaves in the old block, and
  \<open>delete_events c\<close> the release of a block of \<open>c\<close> slots.
\<close>

definition relocates_by_move :: "'a elem_type \<Rightarrow> bool" where
  "relocates_by_move T \<longleftrightarrow> nothrow_move_constructible T \<or> \<not> copy_constructible T"

definition move_cost :: "'a elem_type \<Rightarrow> nat \<Rightarrow> nat" where
  "move_cost T n = (if nothrow_move_constructible T then 0 else n)"

definition reloc_cost :: "'a elem_type \<Rightarrow> nat \<Rightarrow> nat" where
  "reloc_cost T n = (if relocates_by_move T then move_cost T n else n)"

definition reloc_events :: "'a elem_type \<Rightarrow> 'a list \<Rightarrow> 'a event list" where
  "reloc_events T xs = (if relocates_by_move T then map Move xs else map Copy xs)"

definition reloc_left :: "'a elem_type \<Rightarrow> 'a list \<Rightarrow> 'a list" where
  "reloc_left T xs = (if relocates_by_move T then map (moved_from T) xs else xs)"

definition delete_events :: "nat \<Rightarrow> 'a event list" where
  "delete_events c = (if c = 0 then [] else [Delete c])"

text \<open>
  Element types and worlds for concrete runs: \<open>T_copy\<close> has a copy constructor and a
  move constructor that may throw, \<open>T_nothrow\<close> a \<^verbatim>\<open>noexcept\<close> move constructor,
  \<open>T_move_only\<close> no copy constructor and a move constructor that may throw. A moved-from
  object has the value \<open>0\<close>. \<open>script fs\<close> is the world with the fault script \<open>fs\<close> and
  an empty log.
\<close>

definition T_copy :: "int elem_type" where
  "T_copy = \<lparr>nothrow_move_constructible = False, copy_constructible = True,
             value_init = 0, moved_from = (\<lambda>x. 0)\<rparr>"

definition T_nothrow :: "int elem_type" where
  "T_nothrow = \<lparr>nothrow_move_constructible = True, copy_constructible = True,
                value_init = 0, moved_from = (\<lambda>x. 0)\<rparr>"

definition T_move_only :: "int elem_type" where
  "T_move_only = \<lparr>nothrow_move_constructible = False, copy_constructible = False,
                  value_init = 0, moved_from = (\<lambda>x. 0)\<rparr>"

definition script :: "bool list \<Rightarrow> int world" where
  "script fs = \<lparr>faults = fs, log = []\<rparr>"

text \<open>
  The growth step of \<^verbatim>\<open>Resize\<close>: the capacity it leaves, what it consults and what
  it logs, for a vector of capacity \<open>c\<close> resized to \<open>n\<close>.
\<close>

definition grow_capacity :: "nat \<Rightarrow> nat \<Rightarrow> nat" where
  "grow_capacity c n = (if c < n then max (c * 2) n else c)"

definition grow_cost :: "'a elem_type \<Rightarrow> nat \<Rightarrow> nat \<Rightarrow> nat \<Rightarrow> nat" where
  "grow_cost T k c n = (if c < n then Suc (reloc_cost T k) else 0)"

definition grow_events :: "'a elem_type \<Rightarrow> 'a list \<Rightarrow> nat \<Rightarrow> nat \<Rightarrow> 'a event list" where
  "grow_events T xs c n =
     (if c < n then New (max (c * 2) n) # reloc_events T xs @ map Destroy (reloc_left T xs) @ delete_events c
      else [])"

text \<open>
  What the construction of the new element of \<^verbatim>\<open>Emplace\<close> consults and logs, and the
  capacity \<^verbatim>\<open>EmplaceWithRelocation\<close> asks for.
\<close>

definition construct_cost :: "'a elem_type \<Rightarrow> 'a args \<Rightarrow> nat" where
  "construct_cost T a = (case a of ByMove x \<Rightarrow> move_cost T 1 | ByCopy x \<Rightarrow> 1 | ByCtor x \<Rightarrow> 1)"

definition construct_event :: "'a args \<Rightarrow> 'a event" where
  "construct_event a = (case a of ByCopy x \<Rightarrow> Copy x | ByMove x \<Rightarrow> Move x | ByCtor x \<Rightarrow> Construct x)"

definition new_capacity :: "nat \<Rightarrow> nat" where
  "new_capacity n = (if n = 0 then 1 else n * 2)"

text \<open>The events of a copy assignment of \<open>ys\<close> over \<open>xs\<close> that fits the capacity.\<close>

definition assign_events :: "'a list \<Rightarrow> 'a list \<Rightarrow> 'a event list" where
  "assign_events xs ys =
     map CopyAssign (take (length xs) ys) @
     (if length ys < length xs then map Destroy (drop (length ys) xs) else map Copy (drop (length xs) ys))"

text \<open>
  The two members the size invariant relates: \<^verbatim>\<open>size_\<close> and the capacity of \<^verbatim>\<open>data_\<close>.
\<close>

definition fields :: "'a Vector \<Rightarrow> nat \<times> nat" where
  "fields this = (size_v this, capacity (data this))"

section \<open>Worlds\<close>

lemma advance_0 [simp]: "advance 0 [] w = w"
  by (simp add: advance_def)

lemma advance_advance [simp]: "advance k evs (advance j evs0 w) = advance (j + k) (evs0 @ evs) w"
  by (simp add: advance_def add.commute)

lemma emit_advance: "emit e w = advance 0 [e] w"
  by (simp add: emit_def advance_def)

lemma calm_0 [simp]: "calm 0 w"
  by (simp add: calm_def)

lemma calm_Suc: "calm (Suc k) w \<longleftrightarrow> calm (Suc 0) w \<and> calm k (advance (Suc 0) evs w)"
  by (cases "faults w") (auto simp: calm_def advance_def)

lemma calm_add: "calm (j + k) w \<longleftrightarrow> calm j w \<and> calm k (advance j evs w)"
  by (auto simp: calm_def advance_def take_add)

lemma calm_advance_0 [simp]: "calm k (advance 0 evs w) = calm k w"
  by (simp add: calm_def advance_def)

lemma fallible_calm: "calm (Suc 0) w \<Longrightarrow> fallible e w = (True, advance (Suc 0) [e] w)"
  by (cases "faults w") (auto simp: fallible_def consult_def calm_def advance_def emit_def)

lemma fallible_throw: "\<not> calm (Suc 0) w \<Longrightarrow> fallible e w = (False, advance (Suc 0) [] w)"
  by (cases "faults w") (auto simp: fallible_def consult_def calm_def advance_def emit_def)

lemma faults_advance [simp]: "faults (advance k evs w) = drop k (faults w)"
  by (simp add: advance_def)

lemma log_advance [simp]: "log (advance k evs w) = log w @ evs"
  by (simp add: advance_def)

section \<open>The library algorithms on blocks of objects\<close>

lemma nth_Suc_length: "(A @ a # b # R) ! Suc (length A) = b"
  by (simp add: nth_append)

lemma update_Suc_length: "(A @ a # b # R)[Suc (length A) := v] = A @ a # v # R"
  by (simp add: list_update_append)

lemma nth_len: "length M = n \<Longrightarrow> (M @ a # R) ! n = a"
  by (simp add: nth_append)

lemma nth_mid: "length M = n \<Longrightarrow> (A @ M @ a # R) ! (length A + n) = a"
  by (simp add: nth_append)

lemma nth_mid_Suc: "length M = n \<Longrightarrow> (A @ M @ a # b # R) ! Suc (length A + n) = b"
  by (simp add: nth_append)

lemma update_mid: "length M = n \<Longrightarrow> (A @ M @ a # R)[length A + n := v] = A @ M @ v # R"
  by (simp add: list_update_append)

lemma update_mid_Suc: "length M = n \<Longrightarrow> (A @ M @ a # b # R)[Suc (length A + n) := v] = A @ M @ a # v # R"
  by (simp add: list_update_append)

lemma update_len: "length M = n \<Longrightarrow> (M @ a # R)[n := v] = M @ v # R"
  by (simp add: list_update_append)

lemma raw_tail: "n < c \<Longrightarrow> Raw # replicate (c - Suc n) Raw = replicate (c - n) Raw"
proof -
  assume "n < c"
  then have e: "c - n = Suc (c - Suc n)" by arith
  show ?thesis unfolding e by simp
qed

lemma replicate_split: "k \<le> n \<Longrightarrow> replicate n a = replicate k a @ replicate (n - k) a"
  by (simp add: replicate_add [symmetric])

lemma destroy_n_objs:
  "destroy_n (A @ map Obj xs @ B) (length A) (length xs) w =
     (Ok (), A @ replicate (length xs) Raw @ B, advance 0 (map Destroy xs) w)"
proof (induction xs arbitrary: A w)
  case Nil
  show ?case by simp
next
  case (Cons x xs)
  show ?case
    using Cons.IH [of "A @ [Raw]" "advance 0 [Destroy x] w"]
    by (simp add: destroy_at_def emit_advance)
qed

lemma uninitialized_copy_n_ok:
  "calm (length xs) w \<Longrightarrow> length D = length xs \<Longrightarrow>
   uninitialized_copy_n (S1 @ map Obj xs @ S2) (length S1) (length xs) (A @ D @ B) (length A) w =
     (Ok (), A @ map Obj xs @ B, advance (length xs) (map Copy xs) w)"
proof (induction xs arbitrary: S1 A D w)
  case Nil
  then show ?case by simp
next
  case (Cons x xs)
  from Cons.prems obtain d D' where D: "D = d # D'" "length D' = length xs"
    by (cases D) auto
  from Cons.prems(1) have c1: "calm (Suc 0) w" and c2: "calm (length xs) (advance (Suc 0) [Copy x] w)"
    using calm_Suc [of "length xs" w "[Copy x]"] by simp_all
  show ?case
    using Cons.IH [of "advance (Suc 0) [Copy x] w" D' "S1 @ [Obj x]" "A @ [Obj x]", OF c2 D(2)]
    by (simp add: D copy_construct_def fallible_calm [OF c1])
qed

lemma uninitialized_copy_n_throw:
  "\<not> calm (length xs) w \<Longrightarrow>
   \<exists>w'. uninitialized_copy_n (S1 @ map Obj xs @ S2) (length S1) (length xs)
           (A @ replicate (length xs) Raw @ B) (length A) w =
     (Throw element_exception, A @ replicate (length xs) Raw @ B, w')"
proof (induction xs arbitrary: S1 A w)
  case Nil
  then show ?case by simp
next
  case (Cons x xs)
  show ?case
  proof (cases "calm (Suc 0) w")
    case False
    then show ?thesis
      by (simp add: copy_construct_def fallible_throw)
  next
    case True
    with Cons.prems have c2: "\<not> calm (length xs) (advance (Suc 0) [Copy x] w)"
      using calm_Suc [of "length xs" w "[Copy x]"] by simp
    from Cons.IH [of "advance (Suc 0) [Copy x] w" "S1 @ [Obj x]" "A @ [Obj x]", OF c2]
    obtain w' where "uninitialized_copy_n ((S1 @ [Obj x]) @ map Obj xs @ S2) (length (S1 @ [Obj x])) (length xs)
           ((A @ [Obj x]) @ replicate (length xs) Raw @ B) (length (A @ [Obj x])) (advance (Suc 0) [Copy x] w) =
     (Throw element_exception, (A @ [Obj x]) @ replicate (length xs) Raw @ B, w')" by blast
    then show ?thesis
      by (simp add: copy_construct_def fallible_calm [OF True])
  qed
qed

lemma move_construct_calm:
  "calm (move_cost T (Suc 0)) w \<Longrightarrow> move_construct T x w = (True, advance (move_cost T (Suc 0)) [Move x] w)"
  by (cases "nothrow_move_constructible T")
     (simp_all add: move_construct_def move_cost_def fallible_calm emit_advance)

lemma move_cost_Suc: "move_cost T (Suc n) = move_cost T (Suc 0) + move_cost T n"
  by (simp add: move_cost_def)

lemma uninitialized_move_n_ok:
  "calm (move_cost T (length xs)) w \<Longrightarrow> length D = length xs \<Longrightarrow>
   uninitialized_move_n T (S1 @ map Obj xs @ S2) (length S1) (length xs) (A @ D @ B) (length A) w =
     (Ok (), S1 @ map (\<lambda>x. Obj (moved_from T x)) xs @ S2, A @ map Obj xs @ B,
      advance (move_cost T (length xs)) (map Move xs) w)"
proof (induction xs arbitrary: S1 A D w)
  case Nil
  then show ?case by (simp add: move_cost_def)
next
  case (Cons x xs)
  from Cons.prems obtain d D' where D: "D = d # D'" "length D' = length xs"
    by (cases D) auto
  let ?w1 = "advance (move_cost T (Suc 0)) [Move x] w"
  from Cons.prems(1) have c1: "calm (move_cost T (Suc 0)) w" and c2: "calm (move_cost T (length xs)) ?w1"
    using calm_add [of "move_cost T (Suc 0)" "move_cost T (length xs)" w "[Move x]"]
    by (simp_all add: move_cost_Suc [of T "length xs"])
  show ?case
    using Cons.IH [of ?w1 D' "S1 @ [Obj (moved_from T x)]" "A @ [Obj x]", OF c2 D(2)]
    by (simp add: D move_construct_calm [OF c1] move_cost_Suc [of T "length xs"])
qed

lemma uninitialized_move_n_throw:
  "\<not> calm (move_cost T (length xs)) w \<Longrightarrow> length D = length xs \<Longrightarrow>
   \<exists>src' dst' w'. uninitialized_move_n T (S1 @ map Obj xs @ S2) (length S1) (length xs)
           (A @ D @ B) (length A) w = (Throw element_exception, src', dst', w')"
proof (induction xs arbitrary: S1 A D w)
  case Nil
  then show ?case by (simp add: move_cost_def)
next
  case (Cons x xs)
  from Cons.prems obtain d D' where D: "D = d # D'" "length D' = length xs"
    by (cases D) auto
  from Cons.prems(1) have nt: "\<not> nothrow_move_constructible T"
    by (auto simp: move_cost_def split: if_splits)
  show ?case
  proof (cases "calm (Suc 0) w")
    case False
    then show ?thesis
      by (simp add: D move_construct_def nt fallible_throw)
  next
    case True
    let ?w1 = "advance (Suc 0) [Move x] w"
    from True Cons.prems(1) nt have c2: "\<not> calm (move_cost T (length xs)) ?w1"
      using calm_Suc [of "length xs" w "[Move x]"] by (simp add: move_cost_def)
    from Cons.IH [of ?w1 D' "S1 @ [Obj (moved_from T x)]" "A @ [Obj x]", OF c2 D(2)]
    obtain src' dst' w' where
      "uninitialized_move_n T ((S1 @ [Obj (moved_from T x)]) @ map Obj xs @ S2)
         (length (S1 @ [Obj (moved_from T x)])) (length xs)
         ((A @ [Obj x]) @ D' @ B) (length (A @ [Obj x])) ?w1 = (Throw element_exception, src', dst', w')"
      by blast
    then show ?thesis
      by (simp add: D move_construct_def nt fallible_calm [OF True])
  qed
qed

lemma uninitialized_value_construct_n_ok:
  "calm n w \<Longrightarrow> length D = n \<Longrightarrow>
   uninitialized_value_construct_n T (A @ D @ B) (length A) n w =
     (Ok (), A @ replicate n (Obj (value_init T)) @ B,
      advance n (replicate n (ValueInit (value_init T))) w)"
proof (induction n arbitrary: A D w)
  case 0
  then show ?case by simp
next
  case (Suc n)
  from Suc.prems obtain d D' where D: "D = d # D'" "length D' = n"
    by (cases D) auto
  let ?w1 = "advance (Suc 0) [ValueInit (value_init T)] w"
  from Suc.prems(1) have c1: "calm (Suc 0) w" and c2: "calm n ?w1"
    using calm_Suc [of n w "[ValueInit (value_init T)]"] by simp_all
  show ?case
    using Suc.IH [of ?w1 D' "A @ [Obj (value_init T)]", OF c2 D(2)]
    by (simp add: D value_construct_def fallible_calm [OF c1] replicate_append_same)
qed

lemma copy_n_ok:
  "calm (length xs) w \<Longrightarrow> length ys = length xs \<Longrightarrow>
   copy_n (S1 @ map Obj xs @ S2) (length S1) (length xs) (A @ map Obj ys @ B) (length A) w =
     (Ok (), A @ map Obj xs @ B, advance (length xs) (map CopyAssign xs) w)"
proof (induction xs arbitrary: S1 A ys w)
  case Nil
  then show ?case by simp
next
  case (Cons x xs)
  from Cons.prems obtain y ys' where D: "ys = y # ys'" "length ys' = length xs"
    by (cases ys) auto
  let ?w1 = "advance (Suc 0) [CopyAssign x] w"
  from Cons.prems(1) have c1: "calm (Suc 0) w" and c2: "calm (length xs) ?w1"
    using calm_Suc [of "length xs" w "[CopyAssign x]"] by simp_all
  show ?case
    using Cons.IH [of ?w1 ys' "S1 @ [Obj x]" "A @ [Obj x]", OF c2 D(2)]
    by (simp add: D copy_assign_def fallible_calm [OF c1])
qed

lemma move_n_ok:
  "calm (length xs) w \<Longrightarrow>
   move_n T (A @ Obj y # map Obj xs @ B) (Suc (length A)) (length xs) (length A) w =
     (Ok (), A @ map Obj xs @ Obj (if xs = [] then y else moved_from T (last xs)) # B,
      advance (length xs) (map MoveAssign xs) w)"
proof (induction xs arbitrary: A y w)
  case Nil
  then show ?case by simp
next
  case (Cons x xs)
  let ?w1 = "advance (Suc 0) [MoveAssign x] w"
  from Cons.prems(1) have c1: "calm (Suc 0) w" and c2: "calm (length xs) ?w1"
    using calm_Suc [of "length xs" w "[MoveAssign x]"] by simp_all
  have step: "move_n T (A @ Obj y # map Obj (x # xs) @ B) (Suc (length A)) (length (x # xs)) (length A) w =
      move_n T ((A @ [Obj x]) @ Obj (moved_from T x) # map Obj xs @ B) (Suc (length (A @ [Obj x])))
        (length xs) (length (A @ [Obj x])) ?w1"
    by (simp add: move_assign_def fallible_calm [OF c1] nth_Suc_length update_Suc_length
          del: list_update.simps)
  show ?case
    unfolding step Cons.IH [of ?w1 "A @ [Obj x]" "moved_from T x", OF c2]
    by simp
qed

lemma move_backward_n_ok:
  "calm (length xs) w \<Longrightarrow>
   move_backward_n T (A @ map Obj xs @ Obj y # B) (length A) (length xs) (Suc (length A + length xs)) w =
     (Ok (), A @ Obj (if xs = [] then y else moved_from T (hd xs)) # map Obj xs @ B,
      advance (length xs) (map MoveAssign (rev xs)) w)"
proof (induction xs arbitrary: y B w rule: rev_induct)
  case Nil
  then show ?case by simp
next
  case (snoc x xs)
  let ?w1 = "advance (Suc 0) [MoveAssign x] w"
  from snoc.prems(1) have c1: "calm (Suc 0) w" and c2: "calm (length xs) ?w1"
    using calm_Suc [of "length xs" w "[MoveAssign x]"] by simp_all
  have len: "length (map Obj xs) = length xs" by simp
  have step: "move_backward_n T (A @ map Obj (xs @ [x]) @ Obj y # B) (length A) (length (xs @ [x]))
        (Suc (length A + length (xs @ [x]))) w =
      move_backward_n T (A @ map Obj xs @ Obj (moved_from T x) # Obj x # B) (length A) (length xs)
        (Suc (length A + length xs)) ?w1"
    by (simp add: move_assign_def fallible_calm [OF c1] nth_len [OF len] nth_mid [OF len] nth_mid_Suc [OF len]
          update_mid [OF len] update_mid_Suc [OF len] del: list_update.simps)
  show ?case
    unfolding step snoc.IH [of ?w1 "moved_from T x" "Obj x # B", OF c2]
    by (cases xs) simp_all
qed

lemma Allocate_calm: "n \<noteq> 0 \<Longrightarrow> calm (Suc 0) w \<Longrightarrow> Allocate n w = (Ok (replicate n Raw), advance (Suc 0) [New n] w)"
  by (cases "faults w") (auto simp: Allocate_def consult_def calm_def advance_def emit_def)

lemma Allocate_throw: "n \<noteq> 0 \<Longrightarrow> \<not> calm (Suc 0) w \<Longrightarrow> Allocate n w = (Throw bad_alloc, advance (Suc 0) [] w)"
  by (cases "faults w") (auto simp: Allocate_def consult_def calm_def advance_def emit_def)

lemma Deallocate_raw: "Deallocate (replicate c Raw) w = advance 0 (delete_events c) w"
  by (simp add: Deallocate_def delete_events_def emit_advance)

lemma uninitialized_copy_n_fresh:
  assumes "calm (length xs) w" "length xs \<le> n"
  shows "uninitialized_copy_n (map Obj xs @ S2) 0 (length xs) (replicate n Raw) 0 w =
     (Ok (), map Obj xs @ replicate (n - length xs) Raw, advance (length xs) (map Copy xs) w)"
  using uninitialized_copy_n_ok [of xs w "replicate (length xs) Raw" "[]" S2 "[]" "replicate (n - length xs) Raw", OF assms(1)]
    replicate_split [OF assms(2), of "Raw :: 'a slot"]
  by simp

lemma uninitialized_copy_n_fresh_throw:
  assumes "\<not> calm (length xs) w" "length xs \<le> n"
  shows "\<exists>w'. uninitialized_copy_n (map Obj xs @ S2) 0 (length xs) (replicate n Raw) 0 w =
     (Throw element_exception, replicate n Raw, w')"
  using uninitialized_copy_n_throw [of xs w "[]" S2 "[]" "replicate (n - length xs) Raw", OF assms(1)]
    replicate_split [OF assms(2), of "Raw :: 'a slot"]
  by simp

lemma uninitialized_move_n_fresh:
  assumes "calm (move_cost T (length xs)) w" "length xs \<le> n"
  shows "uninitialized_move_n T (map Obj xs @ S2) 0 (length xs) (replicate n Raw) 0 w =
     (Ok (), map Obj (map (moved_from T) xs) @ S2, map Obj xs @ replicate (n - length xs) Raw,
      advance (move_cost T (length xs)) (map Move xs) w)"
  using uninitialized_move_n_ok [of T xs w "replicate (length xs) Raw" "[]" S2 "[]" "replicate (n - length xs) Raw", OF assms(1)]
    replicate_split [OF assms(2), of "Raw :: 'a slot"]
  by (simp add: comp_def)

lemma uninitialized_move_n_fresh_throw:
  assumes "\<not> calm (move_cost T (length xs)) w" "length xs \<le> n"
  shows "\<exists>src' dst' w'. uninitialized_move_n T (map Obj xs @ S2) 0 (length xs) (replicate n Raw) 0 w =
     (Throw element_exception, src', dst', w')"
  using uninitialized_move_n_throw [of T xs w "replicate (length xs) Raw" "[]" S2 "[]" "replicate (n - length xs) Raw", OF assms(1)]
    replicate_split [OF assms(2), of "Raw :: 'a slot"]
  by simp

lemma destroy_n_all:
  "destroy_n (map Obj xs @ B) 0 (length xs) w = (Ok (), replicate (length xs) Raw @ B, advance 0 (map Destroy xs) w)"
  using destroy_n_objs [of "[]" xs B w] by simp

section \<open>Reserve\<close>

lemma Reserve_grow_ok:
  assumes "length xs \<le> c" "c < n" "calm (Suc (reloc_cost T (length xs))) w"
  shows "Reserve T (mk_vector xs c) n w =
     (Ok (), mk_vector xs n,
      advance (Suc (reloc_cost T (length xs)))
        (New n # reloc_events T xs @ map Destroy (reloc_left T xs) @ delete_events c) w)"
proof -
  let ?w1 = "advance (Suc 0) [New n] w"
  from assms(3) have c1: "calm (Suc 0) w" and c2: "calm (reloc_cost T (length xs)) ?w1"
    using calm_Suc [of "reloc_cost T (length xs)" w "[New n]"] by simp_all
  from assms have n0: "n \<noteq> 0" and len: "length xs \<le> n" and nc: "\<not> n \<le> c" by simp_all
  have rep: "replicate (length xs) Raw @ replicate (c - length xs) Raw = replicate c (Raw :: 'a slot)"
    using assms(1) by (simp add: replicate_add [symmetric])
  show ?thesis
  proof (cases "relocates_by_move T")
    case True
    then have cond: "nothrow_move_constructible T \<or> \<not> copy_constructible T"
      by (simp add: relocates_by_move_def)
    from c2 True have c3: "calm (move_cost T (length xs)) ?w1"
      by (simp add: reloc_cost_def)
    show ?thesis
      using destroy_n_all [of "map (moved_from T) xs" "replicate (c - length xs) Raw"]
      by (simp add: Reserve_def mk_vector_def RawMemory_new_def Allocate_calm [OF n0 c1] nc cond
          uninitialized_move_n_fresh [OF c3 len] rep RawMemory_Swap_def RawMemory_dtor_def Deallocate_raw
          reloc_cost_def reloc_events_def reloc_left_def True
          del: replicate_eq_replicate)
  next
    case False
    then have cond: "\<not> (nothrow_move_constructible T \<or> \<not> copy_constructible T)"
      by (simp add: relocates_by_move_def)
    from c2 False have c3: "calm (length xs) ?w1"
      by (simp add: reloc_cost_def)
    show ?thesis
      using destroy_n_all [of xs "replicate (c - length xs) Raw"] cond
      by (simp add: Reserve_def mk_vector_def RawMemory_new_def Allocate_calm [OF n0 c1] nc
          uninitialized_copy_n_fresh [OF c3 len] rep RawMemory_Swap_def RawMemory_dtor_def Deallocate_raw
          reloc_cost_def reloc_events_def reloc_left_def False
          del: replicate_eq_replicate)
  qed
qed

lemma Reserve_grow_throw:
  assumes "length xs \<le> c" "c < n" "\<not> calm (Suc (reloc_cost T (length xs))) w"
  shows "\<exists>e this' w'. Reserve T (mk_vector xs c) n w = (Throw e, this', w') \<and>
           (\<not> relocates_by_move T \<longrightarrow> this' = mk_vector xs c)"
proof -
  let ?w1 = "advance (Suc 0) [New n] w"
  from assms have n0: "n \<noteq> 0" and len: "length xs \<le> n" and nc: "\<not> n \<le> c" by simp_all
  show ?thesis
  proof (cases "calm (Suc 0) w")
    case False
    then show ?thesis
      by (simp add: Reserve_def mk_vector_def RawMemory_new_def Allocate_throw [OF n0] nc)
  next
    case c1: True
    with assms(3) have c2: "\<not> calm (reloc_cost T (length xs)) ?w1"
      using calm_Suc [of "reloc_cost T (length xs)" w "[New n]"] by simp
    show ?thesis
    proof (cases "relocates_by_move T")
      case True
      then have cond: "nothrow_move_constructible T \<or> \<not> copy_constructible T"
        by (simp add: relocates_by_move_def)
      from c2 True have c3: "\<not> calm (move_cost T (length xs)) ?w1"
        by (simp add: reloc_cost_def)
      from uninitialized_move_n_fresh_throw [OF c3 len, of "replicate (c - length xs) Raw"]
      obtain src' dst' w' where "uninitialized_move_n T (map Obj xs @ replicate (c - length xs) Raw) 0 (length xs)
          (replicate n Raw) 0 ?w1 = (Throw element_exception, src', dst', w')" by blast
      then show ?thesis
        using True
        by (simp add: Reserve_def mk_vector_def RawMemory_new_def Allocate_calm [OF n0 c1] nc cond)
    next
      case False
      then have cond: "\<not> (nothrow_move_constructible T \<or> \<not> copy_constructible T)"
        by (simp add: relocates_by_move_def)
      from c2 False have c3: "\<not> calm (length xs) ?w1"
        by (simp add: reloc_cost_def)
      from uninitialized_copy_n_fresh_throw [OF c3 len, of "replicate (c - length xs) Raw"]
      obtain w' where "uninitialized_copy_n (map Obj xs @ replicate (c - length xs) Raw) 0 (length xs)
          (replicate n Raw) 0 ?w1 = (Throw element_exception, replicate n Raw, w')" by blast
      then show ?thesis
        using cond
        by (simp add: Reserve_def mk_vector_def RawMemory_new_def Allocate_calm [OF n0 c1] nc with_buffer_def)
    qed
  qed
qed

lemma Reserve_noop: "n \<le> capacity (data this) \<Longrightarrow> Reserve T this n w = (Ok (), this, w)"
  by (simp add: Reserve_def)

section \<open>Observing a vector\<close>

lemma elements_mk_vector: "length xs \<le> c \<Longrightarrow> elements (mk_vector xs c) = xs"
  by (simp add: elements_def mk_vector_def concat_map_singleton comp_def)

lemma Size_mk_vector [simp]: "Size (mk_vector xs c) = length xs"
  by (simp add: Size_def mk_vector_def)

lemma Capacity_mk_vector [simp]: "Capacity (mk_vector xs c) = c"
  by (simp add: Capacity_def mk_vector_def)

section \<open>PopBack\<close>

lemma PopBack_empty: "size_v this = 0 \<Longrightarrow> PopBack this w = (Ok (), this, w)"
  by (simp add: PopBack_def)

lemma PopBack_snoc:
  "length xs < c \<Longrightarrow>
   PopBack (mk_vector (xs @ [x]) c) w = (Ok (), mk_vector xs c, emit (Destroy x) w)"
proof -
  assume lt: "length xs < c"
  have len: "length (map Obj xs) = length xs" by simp
  show ?thesis
    by (simp add: PopBack_def mk_vector_def destroy_at_def nth_len [OF len] update_len [OF len]
          with_buffer_def raw_tail [OF lt] del: replicate_Suc)
qed

section \<open>Resize\<close>

lemma uninitialized_value_construct_n_throw:
  "\<not> calm n w \<Longrightarrow> length D = n \<Longrightarrow>
   \<exists>buf' w'. uninitialized_value_construct_n T (A @ D @ B) (length A) n w =
     (Throw element_exception, buf', w')"
proof (induction n arbitrary: A D w)
  case 0
  then show ?case by simp
next
  case (Suc n)
  from Suc.prems obtain d D' where D: "D = d # D'" "length D' = n"
    by (cases D) auto
  show ?case
  proof (cases "calm (Suc 0) w")
    case False
    then show ?thesis
      by (simp add: D value_construct_def fallible_throw)
  next
    case True
    let ?w1 = "advance (Suc 0) [ValueInit (value_init T)] w"
    from True Suc.prems(1) have c2: "\<not> calm n ?w1"
      using calm_Suc [of n w "[ValueInit (value_init T)]"] by simp
    from Suc.IH [of ?w1 D' "A @ [Obj (value_init T)]", OF c2 D(2)]
    obtain buf' w' where
      "uninitialized_value_construct_n T ((A @ [Obj (value_init T)]) @ D' @ B)
         (length (A @ [Obj (value_init T)])) n ?w1 = (Throw element_exception, buf', w')"
      by blast
    then show ?thesis
      by (simp add: D value_construct_def fallible_calm [OF True])
  qed
qed

lemma Resize_shrink:
  assumes "length xs \<le> c" "n < length xs"
  shows "Resize T (mk_vector xs c) n w =
     (Ok (), mk_vector (take n xs) c, advance 0 (map Destroy (drop n xs)) w)"
proof -
  have buf: "map Obj xs @ replicate (c - length xs) Raw =
      map Obj (take n xs) @ map Obj (drop n xs) @ replicate (c - length xs) Raw"
    by (simp add: map_append [symmetric] del: map_append)
  have len: "length (map Obj (take n xs)) = n" using assms(2) by simp
  have raws: "replicate (length xs - n) Raw @ replicate (c - length xs) Raw = replicate (c - n) (Raw :: 'a slot)"
    using assms by (simp add: replicate_add [symmetric])
  have m: "min (length xs) n = n" using assms(2) by simp
  show ?thesis
    using destroy_n_objs [of "map Obj (take n xs)" "drop n xs" "replicate (c - length xs) Raw" w] assms(2)
    by (simp add: Resize_def mk_vector_def buf len with_buffer_def raws m
          del: append_take_drop_id replicate_eq_replicate)
qed

lemma value_construct_tail:
  assumes "calm k w" "length xs + k \<le> m"
  shows "uninitialized_value_construct_n T (map Obj xs @ replicate (m - length xs) Raw) (length xs) k w =
     (Ok (), map Obj (xs @ replicate k (value_init T)) @ replicate (m - (length xs + k)) Raw,
      advance k (replicate k (ValueInit (value_init T))) w)"
proof -
  have raws: "replicate (m - length xs) (Raw :: 'a slot) = replicate k Raw @ replicate (m - (length xs + k)) Raw"
    using assms(2) by (simp add: replicate_add [symmetric])
  show ?thesis
    using uninitialized_value_construct_n_ok [of k w "replicate k Raw" T "map Obj xs" "replicate (m - (length xs + k)) Raw", OF assms(1)]
    by (simp add: raws)
qed

lemma value_construct_tail_throw:
  assumes "\<not> calm k w" "length xs + k \<le> m"
  shows "\<exists>buf' w'. uninitialized_value_construct_n T (map Obj xs @ replicate (m - length xs) Raw) (length xs) k w =
     (Throw element_exception, buf', w')"
proof -
  have raws: "replicate (m - length xs) (Raw :: 'a slot) = replicate k Raw @ replicate (m - (length xs + k)) Raw"
    using assms(2) by (simp add: replicate_add [symmetric])
  show ?thesis
    using uninitialized_value_construct_n_throw [of k w "replicate k Raw" T "map Obj xs" "replicate (m - (length xs + k)) Raw", OF assms(1)]
    by (simp add: raws)
qed

lemma Resize_grow_ok:
  assumes "length xs \<le> c" "length xs < n" "calm (grow_cost T (length xs) c n + (n - length xs)) w"
  shows "Resize T (mk_vector xs c) n w =
     (Ok (), mk_vector (xs @ replicate (n - length xs) (value_init T)) (grow_capacity c n),
      advance (grow_cost T (length xs) c n + (n - length xs))
        (grow_events T xs c n @ replicate (n - length xs) (ValueInit (value_init T))) w)"
proof (cases "c < n")
  case True
  let ?m = "max (c * 2) n"
  let ?w1 = "advance (Suc (reloc_cost T (length xs)))
        (New ?m # reloc_events T xs @ map Destroy (reloc_left T xs) @ delete_events c) w"
  from assms(3) True have c1: "calm (Suc (reloc_cost T (length xs))) w" and c2: "calm (n - length xs) ?w1"
    using calm_add [of "Suc (reloc_cost T (length xs))" "n - length xs" w] by (simp_all add: grow_cost_def)
  from True have cm: "c < ?m" by simp
  from assms(2) have fit: "length xs + (n - length xs) \<le> ?m" by simp
  have nl: "\<not> n < length xs" using assms(2) by simp
  have sz: "size_v (mk_vector xs ?m) = length xs" "buffer (data (mk_vector xs ?m)) = map Obj xs @ replicate (?m - length xs) Raw"
    "capacity (data (mk_vector xs c)) = c" "size_v (mk_vector xs c) = length xs"
    by (simp_all add: mk_vector_def)
  have fin: "(with_buffer (mk_vector xs ?m) (map Obj xs @ replicate (n - length xs) (Obj (value_init T)) @
        replicate (?m - (length xs + (n - length xs))) Raw))\<lparr>size_v := n\<rparr> =
      mk_vector (xs @ replicate (n - length xs) (value_init T)) ?m"
    using assms(2) by (simp add: mk_vector_def with_buffer_def)
  show ?thesis
    using True
    by (simp add: Resize_def Let_def sz nl Reserve_grow_ok [OF assms(1) cm c1]
          value_construct_tail [OF c2 fit] fin grow_capacity_def grow_cost_def grow_events_def
          del: max.absorb1 max.absorb2 max.absorb3 max.absorb4)
next
  case False
  from assms(3) False have c2: "calm (n - length xs) w"
    by (simp add: grow_cost_def)
  from False have fit: "length xs + (n - length xs) \<le> c" using assms(2) by simp
  have nl: "\<not> n < length xs" using assms(2) by simp
  have sz: "size_v (mk_vector xs c) = length xs" "buffer (data (mk_vector xs c)) = map Obj xs @ replicate (c - length xs) Raw"
    "capacity (data (mk_vector xs c)) = c"
    by (simp_all add: mk_vector_def)
  have fin: "(with_buffer (mk_vector xs c) (map Obj xs @ replicate (n - length xs) (Obj (value_init T)) @
        replicate (c - (length xs + (n - length xs))) Raw))\<lparr>size_v := n\<rparr> =
      mk_vector (xs @ replicate (n - length xs) (value_init T)) c"
    using assms(2) by (simp add: mk_vector_def with_buffer_def)
  show ?thesis
    using False
    by (simp add: Resize_def Let_def sz nl value_construct_tail [OF c2 fit] fin
          grow_capacity_def grow_cost_def grow_events_def)
qed

lemma Resize_grow_throw:
  assumes "length xs \<le> c" "length xs < n" "\<not> calm (grow_cost T (length xs) c n + (n - length xs)) w"
  shows "\<exists>e this' w'. Resize T (mk_vector xs c) n w = (Throw e, this', w')"
proof -
  have nl: "\<not> n < length xs" using assms(2) by simp
  have sz: "capacity (data (mk_vector xs c)) = c" "size_v (mk_vector xs c) = length xs"
    "buffer (data (mk_vector xs c)) = map Obj xs @ replicate (c - length xs) Raw"
    by (simp_all add: mk_vector_def)
  show ?thesis
  proof (cases "c < n")
    case True
    let ?m = "max (c * 2) n"
    from True have cm: "c < ?m" by simp
    from assms(2) have fit: "length xs + (n - length xs) \<le> ?m" by simp
    have szm: "size_v (mk_vector xs ?m) = length xs"
      "buffer (data (mk_vector xs ?m)) = map Obj xs @ replicate (?m - length xs) Raw"
      by (simp_all add: mk_vector_def)
    show ?thesis
    proof (cases "calm (Suc (reloc_cost T (length xs))) w")
      case False
      from Reserve_grow_throw [OF assms(1) cm False]
      obtain e this' w' where "Reserve T (mk_vector xs c) ?m w = (Throw e, this', w')" by blast
      then show ?thesis
        using True by (simp add: Resize_def Let_def sz nl)
    next
      case c1: True
      let ?w1 = "advance (Suc (reloc_cost T (length xs)))
        (New ?m # reloc_events T xs @ map Destroy (reloc_left T xs) @ delete_events c) w"
      from assms(3) True c1 have c2: "\<not> calm (n - length xs) ?w1"
        using calm_add [of "Suc (reloc_cost T (length xs))" "n - length xs" w] by (simp add: grow_cost_def)
      from value_construct_tail_throw [OF c2 fit]
      obtain buf' w' where "uninitialized_value_construct_n T (map Obj xs @ replicate (?m - length xs) Raw)
          (length xs) (n - length xs) ?w1 = (Throw element_exception, buf', w')" by blast
      then show ?thesis
        using True
        by (simp add: Resize_def Let_def sz szm nl Reserve_grow_ok [OF assms(1) cm c1]
              del: max.absorb1 max.absorb2 max.absorb3 max.absorb4)
    qed
  next
    case False
    from assms(3) False have c2: "\<not> calm (n - length xs) w"
      by (simp add: grow_cost_def)
    from False have fit: "length xs + (n - length xs) \<le> c" using assms(2) by simp
    from value_construct_tail_throw [OF c2 fit]
    obtain buf' w' where "uninitialized_value_construct_n T (map Obj xs @ replicate (c - length xs) Raw)
        (length xs) (n - length xs) w = (Throw element_exception, buf', w')" by blast
    then show ?thesis
      using False by (simp add: Resize_def Let_def sz nl)
  qed
qed

section \<open>Emplace into a full vector\<close>

lemma int_of_ptrdiff_small: "d < 2 ^ 31 \<Longrightarrow> int_of_ptrdiff d = int d"
  unfolding int_of_ptrdiff_def
  by (simp add: signed_of_nat signed_take_bit_int_eq_self)

lemma sint_le_uint: "sint (w :: 'a :: len word) \<le> uint w"
proof -
  have "- (2 ^ (LENGTH('a) - Suc 0)) \<le> (0 :: int)" by simp
  also have "0 \<le> uint w" by simp
  finally show ?thesis
    by (simp add: sint_uint signed_take_bit_int_less_eq_self_iff)
qed

lemma int_of_ptrdiff_le: "0 \<le> int_of_ptrdiff d \<Longrightarrow> nat (int_of_ptrdiff d) \<le> d"
proof -
  let ?w = "word_of_nat d :: 32 word"
  have "sint ?w \<le> uint ?w" by (rule sint_le_uint)
  also have "uint ?w = int (unat ?w)" by simp
  also have "unat ?w = d mod 2 ^ 32" by (simp add: unat_of_nat)
  also have "int (d mod 2 ^ 32) \<le> int d" by simp
  finally show ?thesis by (simp add: int_of_ptrdiff_def)
qed

lemma construct_calm:
  "calm (construct_cost T a) w \<Longrightarrow>
   construct T a w = (True, advance (construct_cost T a) [construct_event a] w)"
  by (cases a) (simp_all add: construct_cost_def construct_event_def copy_construct_def
      fallible_calm move_construct_calm)

lemma construct_throw:
  "\<not> calm (construct_cost T a) w \<Longrightarrow> construct T a w = (False, advance (Suc 0) [] w)"
  by (cases a) (auto simp: construct_cost_def copy_construct_def move_construct_def move_cost_def
      fallible_throw split: if_splits)

lemma replicate_update: "p < m \<Longrightarrow> (replicate m a)[p := b] = replicate p a @ b # replicate (m - Suc p) a"
proof -
  assume "p < m"
  then have "replicate m a = replicate p a @ a # replicate (m - Suc p) a"
    by (metis Suc_diff_Suc add_diff_inverse_nat less_imp_le_nat not_less replicate_Suc replicate_add)
  then show ?thesis
    by (simp add: list_update_append)
qed

lemma map_take_drop: "map f (take p xs) @ map f (drop p xs) = map f xs"
  by (simp flip: map_append)

lemma move_phase1:
  assumes "p \<le> length xs" "length xs < m" "calm (move_cost T p) w"
  shows "uninitialized_move_n T (map Obj xs) 0 p ((replicate m Raw)[p := Obj v]) 0 w =
     (Ok (), map Obj (map (moved_from T) (take p xs)) @ map Obj (drop p xs),
      map Obj (take p xs) @ Obj v # replicate (m - Suc p) Raw,
      advance (move_cost T p) (map Move (take p xs)) w)"
proof -
  from assms have pm: "p < m" by simp
  have l: "length (take p xs) = p" using assms(1) by simp
  have mn: "min (length xs) p = p" using assms(1) by simp
  have src: "map Obj xs = map Obj (take p xs) @ map Obj (drop p xs)"
    by (simp add: map_append [symmetric] del: map_append)
  from assms(3) l have c: "calm (move_cost T (length (take p xs))) w" by simp
  show ?thesis
    using uninitialized_move_n_ok [of T "take p xs" w "replicate p Raw" "[]" "map Obj (drop p xs)" "[]"
        "Obj v # replicate (m - Suc p) Raw", OF c]
    by (simp add: replicate_update [OF pm] mn comp_def map_take_drop)
qed

lemma move_phase2:
  assumes "p \<le> length xs" "length xs < m" "calm (move_cost T (length xs - p)) w"
  shows "uninitialized_move_n T (map (\<lambda>x. Obj (moved_from T x)) (take p xs) @ map Obj (drop p xs)) p (length xs - p)
       (map Obj (take p xs) @ Obj v # replicate (m - Suc p) Raw) (Suc p) w =
     (Ok (), map (\<lambda>x. Obj (moved_from T x)) xs,
      map Obj (take p xs) @ Obj v # map Obj (drop p xs) @ replicate (m - Suc (length xs)) Raw,
      advance (move_cost T (length xs - p)) (map Move (drop p xs)) w)"
proof -
  have mn: "min (length xs) p = p" using assms(1) by simp
  have raws: "replicate (m - Suc p) (Raw :: 'a slot) = replicate (length xs - p) Raw @ replicate (m - Suc (length xs)) Raw"
    using assms by (simp add: replicate_add [symmetric])
  from assms(3) have c: "calm (move_cost T (length (drop p xs))) w" by simp
  have mf: "map (moved_from T) (take p xs) @ map (moved_from T) (drop p xs) = map (moved_from T) xs"
    by (simp add: map_append [symmetric] del: map_append)
  show ?thesis
    using uninitialized_move_n_ok [of T "drop p xs" w "replicate (length xs - p) Raw"
        "map Obj (map (moved_from T) (take p xs))" "[]" "map Obj (take p xs) @ [Obj v]"
        "replicate (m - Suc (length xs)) Raw", OF c]
    by (simp add: mn raws comp_def map_take_drop)
qed

lemma copy_phase1:
  assumes "p \<le> length xs" "length xs < m" "calm p w"
  shows "uninitialized_copy_n (map Obj xs) 0 p ((replicate m Raw)[p := Obj v]) 0 w =
     (Ok (), map Obj (take p xs) @ Obj v # replicate (m - Suc p) Raw,
      advance p (map Copy (take p xs)) w)"
proof -
  from assms have pm: "p < m" by simp
  have mn: "min (length xs) p = p" using assms(1) by simp
  from assms(3) mn have c: "calm (length (take p xs)) w" by simp
  show ?thesis
    using uninitialized_copy_n_ok [of "take p xs" w "replicate p Raw" "[]" "map Obj (drop p xs)" "[]"
        "Obj v # replicate (m - Suc p) Raw", OF c]
    by (simp add: replicate_update [OF pm] mn map_take_drop)
qed

lemma copy_phase1_throw:
  assumes "p \<le> length xs" "length xs < m" "\<not> calm p w"
  shows "\<exists>w'. uninitialized_copy_n (map Obj xs) 0 p ((replicate m Raw)[p := Obj v]) 0 w =
     (Throw element_exception, (replicate m Raw)[p := Obj v], w')"
proof -
  from assms have pm: "p < m" by simp
  have mn: "min (length xs) p = p" using assms(1) by simp
  from assms(3) mn have c: "\<not> calm (length (take p xs)) w" by simp
  show ?thesis
    using uninitialized_copy_n_throw [of "take p xs" w "[]" "map Obj (drop p xs)" "[]"
        "Obj v # replicate (m - Suc p) Raw", OF c]
    by (simp add: replicate_update [OF pm] mn map_take_drop)
qed

lemma copy_phase2:
  assumes "p \<le> length xs" "length xs < m" "calm (length xs - p) w"
  shows "uninitialized_copy_n (map Obj xs) p (length xs - p)
       (map Obj (take p xs) @ Obj v # replicate (m - Suc p) Raw) (Suc p) w =
     (Ok (), map Obj (take p xs) @ Obj v # map Obj (drop p xs) @ replicate (m - Suc (length xs)) Raw,
      advance (length xs - p) (map Copy (drop p xs)) w)"
proof -
  have mn: "min (length xs) p = p" using assms(1) by simp
  have raws: "replicate (m - Suc p) (Raw :: 'a slot) = replicate (length xs - p) Raw @ replicate (m - Suc (length xs)) Raw"
    using assms by (simp add: replicate_add [symmetric])
  from assms(3) have c: "calm (length (drop p xs)) w" by simp
  show ?thesis
    using uninitialized_copy_n_ok [of "drop p xs" w "replicate (length xs - p) Raw"
        "map Obj (take p xs)" "[]" "map Obj (take p xs) @ [Obj v]"
        "replicate (m - Suc (length xs)) Raw", OF c]
    by (simp add: mn raws map_take_drop)
qed

lemma copy_phase2_throw:
  assumes "p \<le> length xs" "length xs < m" "\<not> calm (length xs - p) w"
  shows "\<exists>w'. uninitialized_copy_n (map Obj xs) p (length xs - p)
       (map Obj (take p xs) @ Obj v # replicate (m - Suc p) Raw) (Suc p) w =
     (Throw element_exception, map Obj (take p xs) @ Obj v # replicate (m - Suc p) Raw, w')"
proof -
  have mn: "min (length xs) p = p" using assms(1) by simp
  have raws: "replicate (m - Suc p) (Raw :: 'a slot) = replicate (length xs - p) Raw @ replicate (m - Suc (length xs)) Raw"
    using assms by (simp add: replicate_add [symmetric])
  from assms(3) have c: "\<not> calm (length (drop p xs)) w" by simp
  show ?thesis
    using uninitialized_copy_n_throw [of "drop p xs" w
        "map Obj (take p xs)" "[]" "map Obj (take p xs) @ [Obj v]"
        "replicate (m - Suc (length xs)) Raw", OF c]
    by (simp add: mn raws map_take_drop)
qed

lemma new_capacity_gt: "n < new_capacity n"
  by (simp add: new_capacity_def)

lemma EmplaceWithRelocation_ok:
  assumes "pos \<le> length xs" "0 \<le> int_of_ptrdiff pos"
    and "calm (Suc (construct_cost T a + reloc_cost T (length xs))) w"
  shows "EmplaceWithRelocation T (mk_vector xs (length xs)) pos a w =
     (Ok (),
      \<lparr>data = \<lparr>buffer = map Obj (take (nat (int_of_ptrdiff pos)) xs @ arg_value a # drop (nat (int_of_ptrdiff pos)) xs) @
                  replicate (new_capacity (length xs) - Suc (length xs)) Raw,
               capacity = new_capacity (length xs)\<rparr>,
       size_v = length xs\<rparr>,
      advance (Suc (construct_cost T a + reloc_cost T (length xs)))
        (New (new_capacity (length xs)) # construct_event a # reloc_events T xs @
         map Destroy (reloc_left T xs) @ delete_events (length xs)) w)"
proof -
  define p where "p = nat (int_of_ptrdiff pos)"
  define m where "m = new_capacity (length xs)"
  have m_alt: "(if xs = [] then 1 else length xs * 2) = m"
    by (simp add: m_def new_capacity_def)
  from assms(1,2) have pn: "p \<le> length xs"
    using int_of_ptrdiff_le [of pos] by (simp add: p_def)
  have nm: "length xs < m" by (simp add: m_def new_capacity_gt)
  then have m0: "m \<noteq> 0" by simp
  let ?w1 = "advance (Suc 0) [New m] w"
  let ?w2 = "advance (Suc (construct_cost T a)) [New m, construct_event a] w"
  from assms(3) have c1: "calm (Suc 0) w" and c23: "calm (construct_cost T a + reloc_cost T (length xs)) ?w1"
    using calm_Suc [of "construct_cost T a + reloc_cost T (length xs)" w "[New m]"] by simp_all
  from c23 have c2: "calm (construct_cost T a) ?w1" and c3: "calm (reloc_cost T (length xs)) ?w2"
    using calm_add [of "construct_cost T a" "reloc_cost T (length xs)" ?w1 "[construct_event a]"] by simp_all
  have split_cost: "length xs = p + (length xs - p)" using pn by simp
  show ?thesis
  proof (cases "relocates_by_move T")
    case True
    then have cond: "nothrow_move_constructible T \<or> \<not> copy_constructible T"
      by (simp add: relocates_by_move_def)
    let ?w3 = "advance (Suc (construct_cost T a + move_cost T p)) (New m # construct_event a # map Move (take p xs)) w"
    have mc: "move_cost T (length xs) = move_cost T p + move_cost T (length xs - p)"
      using pn by (simp add: move_cost_def)
    from c3 True have c4: "calm (move_cost T p) ?w2" and c5: "calm (move_cost T (length xs - p)) ?w3"
      using calm_add [of "move_cost T p" "move_cost T (length xs - p)" ?w2 "map Move (take p xs)"]
      by (simp_all add: reloc_cost_def mc)
    have ph1: "uninitialized_move_n T (map Obj xs) 0 p ((replicate m Raw)[p := Obj (arg_value a)]) 0 ?w2 =
       (Ok (), map (\<lambda>x. Obj (moved_from T x)) (take p xs) @ map Obj (drop p xs),
        map Obj (take p xs) @ Obj (arg_value a) # replicate (m - Suc p) Raw, ?w3)"
      using move_phase1 [OF pn nm c4] by simp
    have ph2: "uninitialized_move_n T (map (\<lambda>x. Obj (moved_from T x)) (take p xs) @ map Obj (drop p xs)) p (length xs - p)
       (map Obj (take p xs) @ Obj (arg_value a) # replicate (m - Suc p) Raw) (Suc p) ?w3 =
     (Ok (), map (\<lambda>x. Obj (moved_from T x)) xs,
      map Obj (take p xs) @ Obj (arg_value a) # map Obj (drop p xs) @ replicate (m - Suc (length xs)) Raw,
      advance (Suc (construct_cost T a + move_cost T (length xs))) (New m # construct_event a # map Move xs) w)"
      using move_phase2 [OF pn nm c5] by (simp add: mc map_take_drop add.assoc)
    show ?thesis
      using assms(2) pn nm cond True destroy_n_all [of "map (moved_from T) xs" "[]"]
      by (simp add: EmplaceWithRelocation_def Let_def mk_vector_def p_def [symmetric] m_alt
          m_def [symmetric] RawMemory_new_def Allocate_calm [OF m0 c1] construct_calm [OF c2]
          ph1 ph2 comp_def RawMemory_Swap_def RawMemory_dtor_def Deallocate_raw
          reloc_cost_def reloc_events_def reloc_left_def)
  next
    case False
    then have cond: "\<not> (nothrow_move_constructible T \<or> \<not> copy_constructible T)"
      by (simp add: relocates_by_move_def)
    let ?w3 = "advance (Suc (construct_cost T a + p)) (New m # construct_event a # map Copy (take p xs)) w"
    from c3 False have c4: "calm p ?w2" and c5: "calm (length xs - p) ?w3"
      using calm_add [of p "length xs - p" ?w2 "map Copy (take p xs)"] pn
      by (simp_all add: reloc_cost_def)
    have ph1: "uninitialized_copy_n (map Obj xs) 0 p ((replicate m Raw)[p := Obj (arg_value a)]) 0 ?w2 =
       (Ok (), map Obj (take p xs) @ Obj (arg_value a) # replicate (m - Suc p) Raw, ?w3)"
      using copy_phase1 [OF pn nm c4] by simp
    have ph2: "uninitialized_copy_n (map Obj xs) p (length xs - p)
       (map Obj (take p xs) @ Obj (arg_value a) # replicate (m - Suc p) Raw) (Suc p) ?w3 =
     (Ok (), map Obj (take p xs) @ Obj (arg_value a) # map Obj (drop p xs) @ replicate (m - Suc (length xs)) Raw,
      advance (Suc (construct_cost T a + length xs)) (New m # construct_event a # map Copy xs) w)"
      using copy_phase2 [OF pn nm c5] pn by (simp add: map_take_drop add.assoc)
    show ?thesis
      using assms(2) pn nm cond False destroy_n_all [of xs "[]"]
      by (simp add: EmplaceWithRelocation_def Let_def mk_vector_def p_def [symmetric] m_alt
          m_def [symmetric] RawMemory_new_def Allocate_calm [OF m0 c1] construct_calm [OF c2]
          ph1 ph2 RawMemory_Swap_def RawMemory_dtor_def Deallocate_raw
          reloc_cost_def reloc_events_def reloc_left_def)
  qed
qed

lemma EmplaceWithRelocation_copy_throw:
  assumes "pos \<le> length xs" "0 \<le> int_of_ptrdiff pos" "\<not> relocates_by_move T"
    and "\<not> calm (Suc (construct_cost T a + length xs)) w"
  shows "\<exists>e w'. EmplaceWithRelocation T (mk_vector xs (length xs)) pos a w =
           (Throw e, mk_vector xs (length xs), w')"
proof -
  define p where "p = nat (int_of_ptrdiff pos)"
  define m where "m = new_capacity (length xs)"
  have m_alt: "(if xs = [] then 1 else length xs * 2) = m"
    by (simp add: m_def new_capacity_def)
  from assms(1,2) have pn: "p \<le> length xs"
    using int_of_ptrdiff_le [of pos] by (simp add: p_def)
  have nm: "length xs < m" by (simp add: m_def new_capacity_gt)
  then have m0: "m \<noteq> 0" by simp
  from assms(3) have cond: "\<not> (nothrow_move_constructible T \<or> \<not> copy_constructible T)"
    by (simp add: relocates_by_move_def)
  let ?w1 = "advance (Suc 0) [New m] w"
  let ?w2 = "advance (Suc (construct_cost T a)) [New m, construct_event a] w"
  let ?w3 = "advance (Suc (construct_cost T a + p)) (New m # construct_event a # map Copy (take p xs)) w"
  show ?thesis
  proof (cases "calm (Suc 0) w")
    case False
    then show ?thesis
      by (simp add: EmplaceWithRelocation_def Let_def mk_vector_def m_alt RawMemory_new_def
            Allocate_throw [OF m0])
  next
    case c1: True
    show ?thesis
    proof (cases "calm (construct_cost T a) ?w1")
      case False
      then show ?thesis
        using assms(2) pn nm
        by (simp add: EmplaceWithRelocation_def Let_def mk_vector_def p_def [symmetric] m_alt
            RawMemory_new_def Allocate_calm [OF m0 c1] construct_throw)
    next
      case c2: True
      from assms(4) c1 c2 have c3: "\<not> calm (length xs) ?w2"
        using calm_Suc [of "construct_cost T a + length xs" w "[New m]"]
          calm_add [of "construct_cost T a" "length xs" ?w1 "[construct_event a]"] by simp
      show ?thesis
      proof (cases "calm p ?w2")
        case False
        from copy_phase1_throw [OF pn nm False]
        obtain w' where "uninitialized_copy_n (map Obj xs) 0 p ((replicate m Raw)[p := Obj (arg_value a)]) 0 ?w2 =
           (Throw element_exception, (replicate m Raw)[p := Obj (arg_value a)], w')" by blast
        then show ?thesis
          using assms(2) pn nm cond
          by (simp add: EmplaceWithRelocation_def Let_def mk_vector_def p_def [symmetric] m_alt
              RawMemory_new_def Allocate_calm [OF m0 c1] construct_calm [OF c2] with_buffer_def)
      next
        case c4: True
        with c3 have c5: "\<not> calm (length xs - p) ?w3"
          using calm_add [of p "length xs - p" ?w2 "map Copy (take p xs)"] pn by simp
        have ph1: "uninitialized_copy_n (map Obj xs) 0 p ((replicate m Raw)[p := Obj (arg_value a)]) 0 ?w2 =
           (Ok (), map Obj (take p xs) @ Obj (arg_value a) # replicate (m - Suc p) Raw, ?w3)"
          using copy_phase1 [OF pn nm c4] by simp
        from copy_phase2_throw [OF pn nm c5]
        obtain w' where "uninitialized_copy_n (map Obj xs) p (length xs - p)
           (map Obj (take p xs) @ Obj (arg_value a) # replicate (m - Suc p) Raw) (Suc p) ?w3 =
           (Throw element_exception, map Obj (take p xs) @ Obj (arg_value a) # replicate (m - Suc p) Raw, w')"
          by blast
        then show ?thesis
          using assms(2) pn nm cond
          by (simp add: EmplaceWithRelocation_def Let_def mk_vector_def p_def [symmetric] m_alt
              RawMemory_new_def Allocate_calm [OF m0 c1] construct_calm [OF c2] ph1 with_buffer_def)
      qed
    qed
  qed
qed

lemma EmplaceWithRelocation_negative:
  assumes "int_of_ptrdiff pos < 0"
  shows "\<exists>r w'. EmplaceWithRelocation T this pos a w = (r, this, w') \<and> r \<noteq> Ok ()"
proof -
  have m0: "(if size_v this = 0 then 1 else size_v this * 2) \<noteq> 0" by simp
  show ?thesis
  proof (cases "calm (Suc 0) w")
    case False
    then show ?thesis
      by (simp add: EmplaceWithRelocation_def Let_def RawMemory_new_def Allocate_throw [OF m0])
  next
    case True
    then show ?thesis
      using assms
      by (simp add: EmplaceWithRelocation_def Let_def RawMemory_new_def Allocate_calm [OF m0])
  qed
qed

lemma Emplace_full_ok:
  assumes "pos \<le> length xs" "0 \<le> int_of_ptrdiff pos"
    and "calm (Suc (construct_cost T a + reloc_cost T (length xs))) w"
  shows "Emplace T (mk_vector xs (length xs)) pos a w =
     (Ok (nat (int_of_ptrdiff pos)),
      mk_vector (take (nat (int_of_ptrdiff pos)) xs @ arg_value a # drop (nat (int_of_ptrdiff pos)) xs)
        (new_capacity (length xs)),
      advance (Suc (construct_cost T a + reloc_cost T (length xs)))
        (New (new_capacity (length xs)) # construct_event a # reloc_events T xs @
         map Destroy (reloc_left T xs) @ delete_events (length xs)) w)"
proof -
  from assms(1,2) have pn: "nat (int_of_ptrdiff pos) \<le> length xs"
    using int_of_ptrdiff_le [of pos] by simp
  have nm: "length xs < new_capacity (length xs)" by (rule new_capacity_gt)
  have sz: "size_v (mk_vector xs (length xs)) = length xs" "capacity (data (mk_vector xs (length xs))) = length xs"
    by (simp_all add: mk_vector_def)
  have mn: "min (length xs) (nat (int_of_ptrdiff pos)) = nat (int_of_ptrdiff pos)"
    using pn by simp
  have fin: "Suc (nat (int_of_ptrdiff pos) + (length xs - nat (int_of_ptrdiff pos))) = Suc (length xs)"
    using pn by simp
  show ?thesis
    using assms(1,2) pn nm
    by (simp add: Emplace_def Let_def sz EmplaceWithRelocation_ok [OF assms]) (simp add: mk_vector_def mn fin)
qed

lemma Emplace_full_copy_throw:
  assumes "pos \<le> length xs" "0 \<le> int_of_ptrdiff pos" "\<not> relocates_by_move T"
    and "\<not> calm (Suc (construct_cost T a + length xs)) w"
  shows "\<exists>e w'. Emplace T (mk_vector xs (length xs)) pos a w = (Throw e, mk_vector xs (length xs), w')"
proof -
  have sz: "size_v (mk_vector xs (length xs)) = length xs" "capacity (data (mk_vector xs (length xs))) = length xs"
    by (simp_all add: mk_vector_def)
  from EmplaceWithRelocation_copy_throw [OF assms]
  obtain e w' where "EmplaceWithRelocation T (mk_vector xs (length xs)) pos a w =
           (Throw e, mk_vector xs (length xs), w')" by blast
  then show ?thesis
    using assms(1) by (simp add: Emplace_def Let_def sz)
qed

lemma Emplace_full_negative:
  assumes "pos \<le> length xs" "int_of_ptrdiff pos < 0"
  shows "\<exists>r w'. Emplace T (mk_vector xs (length xs)) pos a w = (r, mk_vector xs (length xs), w') \<and>
           (\<forall>i. r \<noteq> Ok i)"
proof -
  have sz: "size_v (mk_vector xs (length xs)) = length xs" "capacity (data (mk_vector xs (length xs))) = length xs"
    by (simp_all add: mk_vector_def)
  from EmplaceWithRelocation_negative [OF assms(2)]
  obtain r w' where "EmplaceWithRelocation T (mk_vector xs (length xs)) pos a w = (r, mk_vector xs (length xs), w')"
    "r \<noteq> Ok ()" by blast
  then show ?thesis
    using assms(1) by (cases r) (simp_all add: Emplace_def Let_def sz)
qed

lemma copy_reloc:
  assumes "\<not> nothrow_move_constructible T" "copy_constructible T"
  shows "\<not> relocates_by_move T" "reloc_cost T n = n" "reloc_events T xs = map Copy xs" "reloc_left T xs = xs"
  using assms by (simp_all add: relocates_by_move_def reloc_cost_def reloc_events_def reloc_left_def)

lemma Emplace_full_copy_unchanged:
  assumes "\<not> relocates_by_move T" "pos \<le> length xs"
    and "Emplace T (mk_vector xs (length xs)) pos a w = (r, this', w')" "\<forall>i. r \<noteq> Ok i"
  shows "this' = mk_vector xs (length xs)"
proof (cases "0 \<le> int_of_ptrdiff pos")
  case False
  with Emplace_full_negative [OF assms(2), of T a w] assms(3) show ?thesis by auto
next
  case True
  have rc: "reloc_cost T (length xs) = length xs"
    using assms(1) by (simp add: reloc_cost_def)
  show ?thesis
  proof (cases "calm (Suc (construct_cost T a + length xs)) w")
    case False
    from Emplace_full_copy_throw [OF assms(2) True assms(1) False] assms(3) show ?thesis by auto
  next
    case c: True
    from Emplace_full_ok [OF assms(2) True, of T a w] c rc assms(3,4) show ?thesis by auto
  qed
qed

lemma PushBack_full_copy_unchanged:
  assumes "\<not> relocates_by_move T"
    and "PushBack T (mk_vector xs (length xs)) a w = (r, this', w')" "r \<noteq> Ok ()"
  shows "this' = mk_vector xs (length xs)"
proof -
  have sz: "size_v (mk_vector xs (length xs)) = length xs" by (simp add: mk_vector_def)
  obtain r1 this1 w1 where e: "Emplace T (mk_vector xs (length xs)) (length xs) a w = (r1, this1, w1)"
    by (cases "Emplace T (mk_vector xs (length xs)) (length xs) a w") auto
  show ?thesis
  proof (cases "\<forall>i. r1 \<noteq> Ok i")
    case True
    from Emplace_full_copy_unchanged [OF assms(1) _ e True] have "this1 = mk_vector xs (length xs)" by simp
    with True e assms(2) show ?thesis
      by (cases r1) (auto simp: PushBack_def EmplaceBack_def sz)
  next
    case False
    then obtain i where r1: "r1 = Ok i" by auto
    have pos: "0 \<le> int_of_ptrdiff (length xs)"
      using e r1 by (auto simp: Emplace_def Let_def sz split: prod.splits result.splits if_splits)
    have rc: "reloc_cost T (length xs) = length xs"
      using assms(1) by (simp add: reloc_cost_def)
    have c: "calm (Suc (construct_cost T a + length xs)) w"
    proof (rule ccontr)
      assume "\<not> calm (Suc (construct_cost T a + length xs)) w"
      from Emplace_full_copy_throw [OF _ pos assms(1) this] e r1 show False by auto
    qed
    from Emplace_full_ok [OF _ pos, of xs T a w] c rc e r1
    have i: "i = nat (int_of_ptrdiff (length xs))" and
      t1: "size_v this1 = Suc (length xs)"
      using int_of_ptrdiff_le [OF pos] by (auto simp: mk_vector_def)
    from int_of_ptrdiff_le [OF pos] i t1 have "i < size_v this1" by simp
    with e r1 assms(2,3) show ?thesis
      by (simp add: PushBack_def EmplaceBack_def sz)
  qed
qed

section \<open>Emplace with spare capacity, and Erase\<close>

lemma EmplaceWithoutRelocation_try_end_ok:
  assumes "length xs < c" "calm (construct_cost T a) w"
  shows "EmplaceWithoutRelocation_try T (mk_vector xs c) (length xs) a w =
     (Ok (), with_buffer (mk_vector xs c) (map Obj (xs @ [arg_value a]) @ replicate (c - Suc (length xs)) Raw),
      advance (construct_cost T a) [construct_event a] w)"
proof -
  have len: "length (map Obj xs) = length xs" by simp
  have raws: "replicate (c - length xs) (Raw :: 'a slot) = Raw # replicate (c - Suc (length xs)) Raw"
    using raw_tail [OF assms(1), where 'a = 'a] by simp
  show ?thesis
    using assms(1)
    by (simp add: EmplaceWithoutRelocation_try_def Let_def mk_vector_def construct_calm [OF assms(2)]
          raws update_len [OF len] with_buffer_def del: replicate_Suc)
qed

lemma EmplaceWithoutRelocation_try_mid_ok:
  assumes "length ys + 1 < c" "pos \<le> length ys" "0 \<le> int_of_ptrdiff pos"
    and "calm (construct_cost T a + (move_cost T (Suc 0) + (length ys - nat (int_of_ptrdiff pos) + 1))) w"
  shows "EmplaceWithoutRelocation_try T (mk_vector (ys @ [l]) c) pos a w =
     (Ok (),
      with_buffer (mk_vector (ys @ [l]) c)
        (map Obj (take (nat (int_of_ptrdiff pos)) ys @ arg_value a # drop (nat (int_of_ptrdiff pos)) ys @ [l]) @
         replicate (c - Suc (Suc (length ys))) Raw),
      advance (construct_cost T a + (move_cost T (Suc 0) + (length ys - nat (int_of_ptrdiff pos) + 1)))
        (construct_event a # Move l # map MoveAssign (rev (drop (nat (int_of_ptrdiff pos)) ys)) @
         [MoveAssign (arg_value a), Destroy (moved_from T (arg_value a))]) w)"
proof -
  define p where "p = nat (int_of_ptrdiff pos)"
  define v where "v = arg_value a"
  define M where "M = drop p ys"
  define A where "A = map Obj (take p ys)"
  define R where "R = replicate (c - Suc (Suc (length ys))) (Raw :: 'a slot)"
  define z where "z = (if M = [] then moved_from T l else moved_from T (hd M))"
  from assms(2,3) have py: "p \<le> length ys"
    using int_of_ptrdiff_le [of pos] by (simp add: p_def)
  have lenA: "length A = p" using py by (simp add: A_def)
  have lenM: "length M = length ys - p" by (simp add: M_def)
  have ys: "map Obj ys = A @ map Obj M"
    by (simp add: A_def M_def map_take_drop)
  have raws: "replicate (c - Suc (length ys)) (Raw :: 'a slot) = Raw # R"
    using raw_tail [of "Suc (length ys)" c, where 'a = 'a] assms(1) by (simp add: R_def)
  let ?w1 = "advance (construct_cost T a) [construct_event a] w"
  let ?w2 = "advance (construct_cost T a + move_cost T (Suc 0)) [construct_event a, Move l] w"
  let ?w3 = "advance (construct_cost T a + (move_cost T (Suc 0) + length M))
      (construct_event a # Move l # map MoveAssign (rev M)) w"
  from assms(4) have c1: "calm (construct_cost T a) w"
    and c234: "calm (move_cost T (Suc 0) + (length M + 1)) ?w1"
    using calm_add [of "construct_cost T a" "move_cost T (Suc 0) + (length M + 1)" w "[construct_event a]"]
    by (simp_all add: p_def [symmetric] lenM)
  from c234 have c2: "calm (move_cost T (Suc 0)) ?w1" and c34: "calm (length M + 1) ?w2"
    using calm_add [of "move_cost T (Suc 0)" "length M + 1" ?w1 "[Move l]"] by simp_all
  from c34 have c3: "calm (length M) ?w2" and c4: "calm (Suc 0) ?w3"
    using calm_add [of "length M" 1 ?w2 "map MoveAssign (rev M)"] by (simp_all add: add.assoc)
  define V where "V = mk_vector (ys @ [l]) c"
  have buf: "buffer (data V) = map Obj ys @ Obj l # Raw # R"
    "size_v V = Suc (length ys)"
    using assms(1) by (simp_all add: V_def mk_vector_def raws del: replicate_Suc)
  have len1: "length (map Obj ys) = length ys" by simp
  have n1: "(map Obj ys @ Obj l # Raw # R) ! length ys = Obj l"
    by (rule nth_len [OF len1])
  have u1: "(map Obj ys @ Obj l # Raw # R)[length ys := Obj (moved_from T l), Suc (length ys) := Obj l] =
      A @ map Obj M @ Obj (moved_from T l) # Obj l # R"
    using update_len [OF len1, of "Obj l" "Raw # R" "Obj (moved_from T l)"]
      update_mid_Suc [of "map Obj M" "length M" A "Obj (moved_from T l)" Raw R "Obj l"] lenA lenM py
    by (simp add: ys)
  have mb: "move_backward T (A @ map Obj M @ Obj (moved_from T l) # Obj l # R) p (length ys) (Suc (length ys)) ?w2 =
      (Ok (), A @ Obj z # map Obj M @ Obj l # R, ?w3)"
    using move_backward_n_ok [of M ?w2 T A "moved_from T l" "Obj l # R", OF c3] py lenA lenM
    by (simp add: move_backward_def z_def add.assoc)
  have n2: "(A @ Obj z # map Obj M @ Obj l # R) ! p = Obj z"
    using lenA by (simp add: nth_append)
  have u2: "(A @ Obj z # map Obj M @ Obj l # R)[p := Obj v] = A @ Obj v # map Obj M @ Obj l # R"
    using lenA by (simp add: list_update_append)
  have lenb: "p < length (A @ Obj z # map Obj M @ Obj l # R)"
    using lenA by simp
  have posne: "pos \<noteq> Suc (length ys)" using assms(2) by simp
  have step: "EmplaceWithoutRelocation_try T V pos a w =
      (Ok (), with_buffer V (A @ Obj v # map Obj M @ Obj l # R),
       advance (construct_cost T a + (move_cost T (Suc 0) + (length M + 1)))
        (construct_event a # Move l # map MoveAssign (rev M) @ [MoveAssign v, Destroy (moved_from T v)]) w)"
    using assms(3)
    by (simp add: EmplaceWithoutRelocation_try_def Let_def buf posne construct_calm [OF c1] n1
          move_construct_calm [OF c2] u1 p_def [symmetric] v_def [symmetric] mb lenA n2 u2
          move_assign_def fallible_calm [OF c4] emit_advance add.assoc)
  show ?thesis
    using step
    by (simp add: V_def A_def M_def R_def v_def p_def lenM [unfolded M_def p_def])
qed

lemma Emplace_in_place_end:
  assumes "length xs < c" "0 \<le> int_of_ptrdiff (length xs)" "calm (construct_cost T a) w"
  shows "Emplace T (mk_vector xs c) (length xs) a w =
     (Ok (nat (int_of_ptrdiff (length xs))), mk_vector (xs @ [arg_value a]) c,
      advance (construct_cost T a) [construct_event a] w)"
proof -
  have sz: "size_v (mk_vector xs c) = length xs" "capacity (data (mk_vector xs c)) = c"
    by (simp_all add: mk_vector_def)
  have fin: "(with_buffer (mk_vector xs c) (map Obj xs @ Obj (arg_value a) # replicate (c - Suc (length xs)) Raw))
      \<lparr>size_v := Suc (length xs)\<rparr> = mk_vector (xs @ [arg_value a]) c"
    by (simp add: with_buffer_def mk_vector_def)
  have le: "nat (int_of_ptrdiff (length xs)) \<le> Suc (length xs + (c - Suc (length xs)))"
    using int_of_ptrdiff_le [OF assms(2)] by simp
  show ?thesis
    using assms(1,2) le
    by (simp add: Emplace_def Let_def sz EmplaceWithoutRelocation_def
          EmplaceWithoutRelocation_try_end_ok [OF assms(1,3)] fin with_buffer_def)
       (simp add: mk_vector_def)
qed

lemma Emplace_in_place_mid:
  assumes "length ys + 1 < c" "pos \<le> length ys" "0 \<le> int_of_ptrdiff pos"
    and "calm (construct_cost T a + (move_cost T (Suc 0) + (length ys - nat (int_of_ptrdiff pos) + 1))) w"
  shows "Emplace T (mk_vector (ys @ [l]) c) pos a w =
     (Ok (nat (int_of_ptrdiff pos)),
      mk_vector (take (nat (int_of_ptrdiff pos)) ys @ arg_value a # drop (nat (int_of_ptrdiff pos)) ys @ [l]) c,
      advance (construct_cost T a + (move_cost T (Suc 0) + (length ys - nat (int_of_ptrdiff pos) + 1)))
        (construct_event a # Move l # map MoveAssign (rev (drop (nat (int_of_ptrdiff pos)) ys)) @
         [MoveAssign (arg_value a), Destroy (moved_from T (arg_value a))]) w)"
proof -
  have sz: "size_v (mk_vector (ys @ [l]) c) = Suc (length ys)" "capacity (data (mk_vector (ys @ [l]) c)) = c"
    by (simp_all add: mk_vector_def)
  from assms(2,3) have py: "nat (int_of_ptrdiff pos) \<le> length ys"
    using int_of_ptrdiff_le [of pos] by simp
  have mn: "min (length ys) (nat (int_of_ptrdiff pos)) = nat (int_of_ptrdiff pos)"
    using py by simp
  have fin: "nat (int_of_ptrdiff pos) + (length ys - nat (int_of_ptrdiff pos)) = length ys"
    using py by simp
  show ?thesis
    using assms(1,2,3) py
    by (simp add: Emplace_def Let_def sz EmplaceWithoutRelocation_def
          EmplaceWithoutRelocation_try_mid_ok [OF assms])
       (simp add: mk_vector_def with_buffer_def mn fin)
qed

lemma Erase_ok:
  assumes "length ys + length zs < c" "pos \<le> Suc (length ys + length zs)" "0 \<le> int_of_ptrdiff pos"
    and "nat (int_of_ptrdiff pos) = length ys" "calm (length zs) w"
  shows "Erase T (mk_vector (ys @ y # zs) c) pos w =
     (Ok (length ys), mk_vector (ys @ zs) c,
      advance (length zs)
        (map MoveAssign zs @ [Destroy (if zs = [] then y else moved_from T (last zs))]) w)"
proof -
  define z where "z = (if zs = [] then y else moved_from T (last zs))"
  define V where "V = mk_vector (ys @ y # zs) c"
  define R where "R = replicate (c - Suc (length ys + length zs)) (Raw :: 'a slot)"
  have buf: "buffer (data V) = map Obj ys @ Obj y # map Obj zs @ R"
    "size_v V = Suc (length ys + length zs)"
    by (simp_all add: V_def mk_vector_def R_def)
  have raws: "Raw # R = replicate (c - (length ys + length zs)) Raw"
    using raw_tail [OF assms(1), where 'a = 'a] by (simp add: R_def)
  have mv: "std_move T (map Obj ys @ Obj y # map Obj zs @ R) (Suc (length ys)) (Suc (length ys + length zs))
       (length ys) w =
     (Ok (), map Obj ys @ map Obj zs @ Obj z # R, advance (length zs) (map MoveAssign zs) w)"
    using move_n_ok [of zs w T "map Obj ys" y R, OF assms(5)]
    by (simp add: std_move_def z_def)
  have lenM: "length (map Obj zs) = length zs" by simp
  have n: "(map Obj ys @ map Obj zs @ Obj z # R) ! (length ys + length zs) = Obj z"
    using nth_mid [OF lenM, of "map Obj ys" "Obj z" R] by simp
  have u: "(map Obj ys @ map Obj zs @ Obj z # R)[length ys + length zs := Raw] =
      map Obj ys @ map Obj zs @ Raw # R"
    using update_mid [OF lenM, of "map Obj ys" "Obj z" R Raw] by simp
  have step: "Erase T V pos w =
     (Ok (length ys), (with_buffer V (map Obj ys @ map Obj zs @ Raw # R))\<lparr>size_v := length ys + length zs\<rparr>,
      advance (length zs) (map MoveAssign zs @ [Destroy z]) w)"
    using assms(2,3)
    by (simp add: Erase_def Let_def buf assms(4) mv destroy_at_def n u emit_advance)
  show ?thesis
    using step by (simp add: V_def z_def raws with_buffer_def mk_vector_def del: replicate_Suc)
qed

lemma int_of_ptrdiff_wraps: "int_of_ptrdiff (2 ^ 32) = 0" "int_of_ptrdiff 4294967296 = 0"
  by (simp_all add: int_of_ptrdiff_def)

lemma calm_script_Nil: "calm k (script [])"
  by (simp add: calm_def script_def)

lemma calm_no_faults: "faults w = [] \<Longrightarrow> calm k w"
  by (simp add: calm_def)

lemma Emplace_small_position:
  assumes "pos \<le> length xs" "length xs \<le> c" "pos < 2 ^ 31" "faults w = []"
  shows "\<exists>w'. Emplace T (mk_vector xs c) pos a w =
     (Ok pos, mk_vector (take pos xs @ arg_value a # drop pos xs)
                (if length xs < c then c else new_capacity c), w')"
proof -
  have ip: "int_of_ptrdiff pos = int pos" by (rule int_of_ptrdiff_small [OF assms(3)])
  then have p0: "0 \<le> int_of_ptrdiff pos" and np: "nat (int_of_ptrdiff pos) = pos" by simp_all
  show ?thesis
  proof (cases "length xs < c")
    case False
    with assms(2) have c: "c = length xs" by simp
    show ?thesis
      using Emplace_full_ok [OF assms(1) p0 calm_no_faults [OF assms(4)], where T = T and a = a]
      by (simp add: c np)
  next
    case True
    show ?thesis
    proof (cases "pos = length xs")
      case e: True
      show ?thesis
        using Emplace_in_place_end [OF True p0 [unfolded e] calm_no_faults [OF assms(4)], where T = T and a = a] True
        by (simp add: e np [unfolded e])
    next
      case False
      with assms(1) have lt: "pos < length xs" by simp
      then obtain ys l where xs: "xs = ys @ [l]" by (cases xs rule: rev_cases) auto
      with lt True have a1: "length ys + 1 < c" and a2: "pos \<le> length ys" by simp_all
      show ?thesis
        using Emplace_in_place_mid [OF a1 a2 p0 calm_no_faults [OF assms(4)], where l = l and T = T and a = a] True a2
        by (simp add: xs np)
    qed
  qed
qed

lemma Erase_small_position:
  assumes "pos < length xs" "length xs \<le> c" "pos < 2 ^ 31" "faults w = []"
  shows "\<exists>w'. Erase T (mk_vector xs c) pos w = (Ok pos, mk_vector (take pos xs @ drop (Suc pos) xs) c, w')"
proof -
  have ip: "int_of_ptrdiff pos = int pos" by (rule int_of_ptrdiff_small [OF assms(3)])
  then have p0: "0 \<le> int_of_ptrdiff pos" by simp
  have xs: "xs = take pos xs @ xs ! pos # drop (Suc pos) xs"
    using assms(1) by (rule id_take_nth_drop)
  have l: "length (take pos xs) = pos" using assms(1) by simp
  have a1: "length (take pos xs) + length (drop (Suc pos) xs) < c"
    using assms(1,2) by simp
  have a2: "pos \<le> Suc (length (take pos xs) + length (drop (Suc pos) xs))"
    using assms(1) by simp
  have a4: "nat (int_of_ptrdiff pos) = length (take pos xs)"
    using ip l by simp
  from Erase_ok [OF a1 a2 p0 a4 calm_no_faults [OF assms(4)], where T = T and y = "xs ! pos"]
  show ?thesis
    unfolding xs [symmetric] l by blast
qed

section \<open>Failure of Emplace with spare capacity\<close>

lemma move_backward_n_frame:
  "move_backward_n T buf first n d_last w = (r, buf', w') \<Longrightarrow> first + n \<le> d_last \<Longrightarrow>
   take first buf' = take first buf"
proof (induction n arbitrary: buf d_last w)
  case 0
  then show ?case by simp
next
  case (Suc n)
  show ?case
  proof (cases "first + n < length buf \<and> 0 < d_last \<and> d_last - 1 < length buf")
    case False
    with Suc.prems(1) show ?thesis by auto
  next
    case g: True
    show ?thesis
    proof (cases "buf ! (first + n)")
      case Raw
      with g Suc.prems(1) show ?thesis by auto
    next
      case (Obj x)
      show ?thesis
      proof (cases "buf ! (d_last - 1)")
        case Raw
        with g Obj Suc.prems(1) show ?thesis by auto
      next
        case o2: (Obj y)
        obtain ok w1 where ma: "move_assign x w = (ok, w1)" by (cases "move_assign x w") auto
        show ?thesis
        proof (cases ok)
          case False
          with g Obj o2 ma Suc.prems(1) show ?thesis by auto
        next
          case True
          with g Obj o2 ma Suc.prems(1)
          have rec: "move_backward_n T (buf[d_last - 1 := Obj x, first + n := Obj (moved_from T x)])
              first n (d_last - 1) w1 = (r, buf', w')"
            by simp
          from Suc.prems(2) have le: "first + n \<le> d_last - 1" by simp
          from Suc.IH [OF rec le] le show ?thesis by simp
        qed
      qed
    qed
  qed
qed

lemma move_backward_frame:
  "move_backward T buf first lastp d_last w = (r, buf', w') \<Longrightarrow> lastp \<le> d_last \<Longrightarrow>
   take first buf' = take first buf"
  using move_backward_n_frame [of T buf first "lastp - first" d_last w r buf' w']
  by (auto simp: move_backward_def split: if_splits)

lemma with_buffer_same [simp]: "with_buffer this (buffer (data this)) = this"
  by (simp add: with_buffer_def)

lemma try_throw_frame:
  assumes "EmplaceWithoutRelocation_try T this pos a w = (Throw e, this', w')" "pos \<le> size_v this"
  shows "\<exists>B. this' = with_buffer this B \<and>
           take (nat (int_of_ptrdiff pos)) B = take (nat (int_of_ptrdiff pos)) (buffer (data this))"
proof -
  define buf where "buf = buffer (data this)"
  define n where "n = size_v this"
  define p where "p = nat (int_of_ptrdiff pos)"
  have same: "\<exists>B. this = with_buffer this B \<and> take p B = take p buf"
    by (rule exI [of _ buf]) (simp add: buf_def)
  show ?thesis
  proof (cases "pos = n")
    case True
    with assms(1) have "this' = this"
      by (auto simp: EmplaceWithoutRelocation_try_def Let_def n_def split: if_splits prod.splits bool.splits)
    with same show ?thesis by (simp add: p_def buf_def)
  next
    case False
    with assms(2) have pn: "pos < n" by (simp add: n_def)
    obtain ok1 w1 where c: "construct T a w = (ok1, w1)" by (cases "construct T a w") auto
    show ?thesis
    proof (cases "ok1 \<and> 0 < n \<and> n < length buf")
      case False
      with assms(1) pn c have "this' = this"
        by (auto simp: EmplaceWithoutRelocation_try_def Let_def n_def buf_def split: if_splits bool.splits)
      with same show ?thesis by (simp add: p_def buf_def)
    next
      case g: True
      show ?thesis
      proof (cases "buf ! (n - 1)")
        case Raw
        with assms(1) pn c g show ?thesis
          by (simp add: EmplaceWithoutRelocation_try_def Let_def n_def buf_def)
      next
        case (Obj x)
        obtain ok2 w2 where m: "move_construct T x w1 = (ok2, w2)" by (cases "move_construct T x w1") auto
        show ?thesis
        proof (cases "ok2 \<and> 0 \<le> int_of_ptrdiff pos")
          case False
          with assms(1) pn c g Obj m have "this' = this"
            by (auto simp: EmplaceWithoutRelocation_try_def Let_def n_def buf_def split: if_splits bool.splits)
          with same show ?thesis by (simp add: p_def buf_def)
        next
          case g2: True
          define buf1 where "buf1 = buf[n - Suc 0 := Obj (moved_from T x), n := Obj x]"
          obtain r3 buf2 w3 where mb: "move_backward T buf1 p (n - Suc 0) n w2 = (r3, buf2, w3)"
            by (cases "move_backward T buf1 p (n - Suc 0) n w2") auto
          from g2 pn have "p \<le> n - 1"
            using int_of_ptrdiff_le [of pos] by (simp add: p_def)
          then have t1: "take p buf1 = take p buf" by (simp add: buf1_def)
          from move_backward_frame [OF mb] t1 have t2: "take p buf2 = take p buf" by simp
          from assms(1) pn c g Obj m g2 mb [unfolded buf1_def] have "this' = with_buffer this buf2"
            by (auto simp: EmplaceWithoutRelocation_try_def Let_def n_def [symmetric] buf_def [symmetric]
                p_def [symmetric]
                split: if_splits result.splits slot.splits prod.splits bool.splits)
          with t2 show ?thesis by (auto simp: p_def buf_def)
        qed
      qed
    qed
  qed
qed

section \<open>Copy assignment\<close>

lemma map_take_drop_app: "map f (take p xs) @ map f (drop p xs) @ R = map f xs @ R"
  by (simp flip: map_append append_assoc)

lemma copy_n_throw:
  "\<not> calm (length xs) w \<Longrightarrow> length ys = length xs \<Longrightarrow>
   \<exists>dst' w'. copy_n (S1 @ map Obj xs @ S2) (length S1) (length xs) (A @ map Obj ys @ B) (length A) w =
     (Throw element_exception, dst', w')"
proof (induction xs arbitrary: S1 A ys w)
  case Nil
  then show ?case by simp
next
  case (Cons x xs)
  from Cons.prems obtain y ys' where D: "ys = y # ys'" "length ys' = length xs"
    by (cases ys) auto
  show ?case
  proof (cases "calm (Suc 0) w")
    case False
    then show ?thesis
      by (simp add: D copy_assign_def fallible_throw)
  next
    case True
    let ?w1 = "advance (Suc 0) [CopyAssign x] w"
    from True Cons.prems(1) have c2: "\<not> calm (length xs) ?w1"
      using calm_Suc [of "length xs" w "[CopyAssign x]"] by simp
    from Cons.IH [of ?w1 ys' "S1 @ [Obj x]" "A @ [Obj x]", OF c2 D(2)]
    obtain dst' w' where
      "copy_n ((S1 @ [Obj x]) @ map Obj xs @ S2) (length (S1 @ [Obj x])) (length xs)
         ((A @ [Obj x]) @ map Obj ys' @ B) (length (A @ [Obj x])) ?w1 = (Throw element_exception, dst', w')"
      by blast
    then show ?thesis
      by (simp add: D copy_assign_def fallible_calm [OF True])
  qed
qed

lemma Vector_copy_ok:
  assumes "length ys \<le> d" "ys \<noteq> []" "calm (Suc (length ys)) w"
  shows "Vector_copy (mk_vector ys d) w =
     (Ok (mk_vector ys (length ys)), advance (Suc (length ys)) (New (length ys) # map Copy ys) w)"
proof -
  let ?w1 = "advance (Suc 0) [New (length ys)] w"
  from assms(3) have c1: "calm (Suc 0) w" and c2: "calm (length ys) ?w1"
    using calm_Suc [of "length ys" w "[New (length ys)]"] by simp_all
  from assms(2) have n0: "length ys \<noteq> 0" by simp
  show ?thesis
    using uninitialized_copy_n_fresh [OF c2 order_refl, of "replicate (d - length ys) Raw"]
    by (simp add: Vector_copy_def mk_vector_def RawMemory_new_def Allocate_calm [OF n0 c1])
qed

lemma Vector_copy_throw:
  assumes "length ys \<le> d" "ys \<noteq> []" "\<not> calm (Suc (length ys)) w"
  shows "\<exists>e w'. Vector_copy (mk_vector ys d) w = (Throw e, w')"
proof -
  let ?w1 = "advance (Suc 0) [New (length ys)] w"
  from assms(2) have n0: "length ys \<noteq> 0" by simp
  show ?thesis
  proof (cases "calm (Suc 0) w")
    case False
    then show ?thesis
      by (simp add: Vector_copy_def mk_vector_def RawMemory_new_def Allocate_throw [OF n0])
  next
    case c1: True
    with assms(3) have c2: "\<not> calm (length ys) ?w1"
      using calm_Suc [of "length ys" w "[New (length ys)]"] by simp
    from uninitialized_copy_n_fresh_throw [OF c2 order_refl, of "replicate (d - length ys) Raw"]
    obtain w' where "uninitialized_copy_n (map Obj ys @ replicate (d - length ys) Raw) 0 (length ys)
        (replicate (length ys) Raw) 0 ?w1 = (Throw element_exception, replicate (length ys) Raw, w')"
      by blast
    then show ?thesis
      by (simp add: Vector_copy_def mk_vector_def RawMemory_new_def Allocate_calm [OF n0 c1])
  qed
qed

lemma Vector_dtor_ok:
  assumes "length xs \<le> c"
  shows "Vector_dtor (mk_vector xs c) w = (Ok (), advance 0 (map Destroy xs @ delete_events c) w)"
proof -
  have rep: "replicate (length xs) Raw @ replicate (c - length xs) Raw = replicate c (Raw :: 'a slot)"
    using assms by (simp add: replicate_add [symmetric])
  show ?thesis
    using destroy_n_all [of xs "replicate (c - length xs) Raw" w]
    by (simp add: Vector_dtor_def mk_vector_def RawMemory_dtor_def rep Deallocate_raw
          del: replicate_eq_replicate)
qed

lemma assign_copy_fit_ok:
  assumes "length xs \<le> c" "length ys \<le> c" "length ys \<le> d" "a \<noteq> b" "calm (length ys) w"
  shows "assign_copy a (mk_vector xs c) b (mk_vector ys d) w =
     (Ok (), mk_vector ys c, advance (length ys) (assign_events xs ys) w)"
proof -
  define k where "k = min (length xs) (length ys)"
  define Rc where "Rc = replicate (c - length xs) (Raw :: 'a slot)"
  define Rd where "Rd = replicate (d - length ys) (Raw :: 'a slot)"
  define V where "V = mk_vector xs c"
  have V: "buffer (data V) = map Obj xs @ Rc" "size_v V = length xs" "capacity (data V) = c"
    by (simp_all add: V_def mk_vector_def Rc_def)
  have W: "buffer (data (mk_vector ys d)) = map Obj ys @ Rd" "size_v (mk_vector ys d) = length ys"
    by (simp_all add: mk_vector_def Rd_def)
  let ?w1 = "advance k (map CopyAssign (take k ys)) w"
  have lk: "length (take k ys) = k" "length (take k xs) = k" by (simp_all add: k_def)
  have ky: "length ys = k + (length ys - k)" by (simp add: k_def)
  from assms(5) have c1: "calm k w" and c2: "calm (length ys - k) ?w1"
    using calm_add [of k "length ys - k" w "map CopyAssign (take k ys)"] ky by simp_all
  have cp: "copy_n (map Obj ys @ Rd) 0 k (map Obj xs @ Rc) 0 w =
      (Ok (), map Obj (take k ys) @ map Obj (drop k xs) @ Rc, ?w1)"
    using copy_n_ok [of "take k ys" w "take k xs" "[]" "map Obj (drop k ys) @ Rd" "[]" "map Obj (drop k xs) @ Rc"]
      c1 lk
    by (simp add: map_take_drop_app)
  have step: "assign_copy a V b (mk_vector ys d) w =
     (Ok (), (with_buffer V (map Obj ys @ replicate (c - length ys) Raw))\<lparr>size_v := length ys\<rparr>,
      advance (length ys) (assign_events xs ys) w)"
  proof (cases "length ys < length xs")
    case True
    then have k: "k = length ys" by (simp add: k_def)
    have rep: "replicate (length xs - length ys) Raw @ Rc = replicate (c - length ys) Raw"
      using True assms(1) by (simp add: Rc_def replicate_add [symmetric])
    have d: "destroy_n (map Obj ys @ map Obj (drop (length ys) xs) @ Rc) (length ys) (length xs - length ys)
        (advance (length ys) (map CopyAssign ys) w) =
       (Ok (), map Obj ys @ replicate (c - length ys) Raw,
        advance (length ys) (map CopyAssign ys @ map Destroy (drop (length ys) xs)) w)"
      using destroy_n_objs [of "map Obj ys" "drop (length ys) xs" Rc "advance (length ys) (map CopyAssign ys) w"]
      by (simp add: rep)
    show ?thesis
      using True assms(2,4) cp d
      by (simp add: assign_copy_def Let_def V W k_def [symmetric] k assign_events_def)
  next
    case False
    then have k: "k = length xs" by (simp add: k_def)
    show ?thesis
    proof (cases "length xs < length ys")
      case lt: True
      have rep: "Rc = replicate (length ys - length xs) Raw @ replicate (c - length ys) Raw"
        using lt assms(2) by (simp add: Rc_def replicate_add [symmetric])
      have l: "length (map Obj (take (length xs) ys)) = length xs" using lt by simp
      have mn: "min (length ys) (length xs) = length xs" using lt by simp
      have u: "uninitialized_copy_n (map Obj ys @ Rd) (length xs) (length ys - length xs)
          (map Obj (take (length xs) ys) @ Rc) (length xs)
          (advance (length xs) (map CopyAssign (take (length xs) ys)) w) =
         (Ok (), map Obj ys @ replicate (c - length ys) Raw,
          advance (length ys) (map CopyAssign (take (length xs) ys) @ map Copy (drop (length xs) ys)) w)"
        using uninitialized_copy_n_ok [of "drop (length xs) ys"
            "advance (length xs) (map CopyAssign (take (length xs) ys)) w"
            "replicate (length ys - length xs) Raw" "map Obj (take (length xs) ys)" Rd
            "map Obj (take (length xs) ys)" "replicate (c - length ys) Raw"] c2 lt
        by (simp add: k rep mn map_take_drop_app)
      show ?thesis
        using lt False assms(2,4) cp u
        by (simp add: assign_copy_def Let_def V W k_def [symmetric] k assign_events_def)
    next
      case eq: False
      with False have e: "length ys = length xs" by simp
      have rep: "Rc = replicate (c - length ys) Raw" by (simp add: Rc_def e)
      show ?thesis
        using eq False assms(2,4) cp
        by (simp add: assign_copy_def Let_def V W k_def [symmetric] k assign_events_def e rep)
    qed
  qed
  show ?thesis
    using step by (simp add: V_def with_buffer_def mk_vector_def)
qed

lemma assign_copy_fit_throw:
  assumes "length xs \<le> c" "length ys \<le> c" "length ys \<le> d" "a \<noteq> b" "\<not> calm (length ys) w"
  shows "\<exists>e this' w'. assign_copy a (mk_vector xs c) b (mk_vector ys d) w = (Throw e, this', w')"
proof -
  define k where "k = min (length xs) (length ys)"
  define Rc where "Rc = replicate (c - length xs) (Raw :: 'a slot)"
  define Rd where "Rd = replicate (d - length ys) (Raw :: 'a slot)"
  define V where "V = mk_vector xs c"
  have V: "buffer (data V) = map Obj xs @ Rc" "size_v V = length xs" "capacity (data V) = c"
    by (simp_all add: V_def mk_vector_def Rc_def)
  have W: "buffer (data (mk_vector ys d)) = map Obj ys @ Rd" "size_v (mk_vector ys d) = length ys"
    by (simp_all add: mk_vector_def Rd_def)
  let ?w1 = "advance k (map CopyAssign (take k ys)) w"
  have lk: "length (take k ys) = k" "length (take k xs) = k" by (simp_all add: k_def)
  have ky: "length ys = k + (length ys - k)" by (simp add: k_def)
  have "\<exists>e this' w'. assign_copy a V b (mk_vector ys d) w = (Throw e, this', w')"
  proof (cases "calm k w")
    case False
    from copy_n_throw [of "take k ys" w "take k xs" "[]" "map Obj (drop k ys) @ Rd" "[]" "map Obj (drop k xs) @ Rc"]
      False lk
    obtain dst' w' where "copy_n (map Obj ys @ Rd) 0 k (map Obj xs @ Rc) 0 w = (Throw element_exception, dst', w')"
      by (auto simp: map_take_drop_app)
    then show ?thesis
      using assms(2,4) by (simp add: assign_copy_def Let_def V W k_def [symmetric])
  next
    case c1: True
    with assms(5) have c2: "\<not> calm (length ys - k) ?w1"
      using calm_add [of k "length ys - k" w "map CopyAssign (take k ys)"] ky by simp
    then have "length ys - k \<noteq> 0" by (auto intro: ccontr)
    then have lt: "length xs < length ys" and k: "k = length xs" by (simp_all add: k_def)
    have cp: "copy_n (map Obj ys @ Rd) 0 k (map Obj xs @ Rc) 0 w =
      (Ok (), map Obj (take k ys) @ map Obj (drop k xs) @ Rc, ?w1)"
      using copy_n_ok [of "take k ys" w "take k xs" "[]" "map Obj (drop k ys) @ Rd" "[]" "map Obj (drop k xs) @ Rc"]
        c1 lk
      by (simp add: map_take_drop_app)
    have rep: "Rc = replicate (length ys - length xs) Raw @ replicate (c - length ys) Raw"
      using lt assms(2) by (simp add: Rc_def replicate_add [symmetric])
    have mn: "min (length ys) (length xs) = length xs" using lt by simp
    from uninitialized_copy_n_throw [of "drop (length xs) ys"
            "advance (length xs) (map CopyAssign (take (length xs) ys)) w"
            "map Obj (take (length xs) ys)" Rd
            "map Obj (take (length xs) ys)" "replicate (c - length ys) Raw"] c2 lt
    obtain w' where "uninitialized_copy_n (map Obj ys @ Rd) (length xs) (length ys - length xs)
          (map Obj (take (length xs) ys) @ Rc) (length xs)
          (advance (length xs) (map CopyAssign (take (length xs) ys)) w) =
         (Throw element_exception, map Obj (take (length xs) ys) @ Rc, w')"
      by (auto simp: k rep mn map_take_drop_app)
    then show ?thesis
      using lt assms(2,4) cp
      by (simp add: assign_copy_def Let_def V W k_def [symmetric] k)
  qed
  then show ?thesis by (simp add: V_def)
qed

lemma assign_copy_swap_ok:
  assumes "length xs \<le> c" "c < length ys" "length ys \<le> d" "a \<noteq> b" "calm (Suc (length ys)) w"
  shows "assign_copy a (mk_vector xs c) b (mk_vector ys d) w =
     (Ok (), mk_vector ys (length ys),
      advance (Suc (length ys)) (New (length ys) # map Copy ys @ map Destroy xs @ delete_events c) w)"
proof -
  from assms(2) have ne: "ys \<noteq> []" by auto
  have sz: "size_v (mk_vector ys d) = length ys" "capacity (data (mk_vector xs c)) = c"
    by (simp_all add: mk_vector_def)
  have sw: "Swap (mk_vector xs c) (mk_vector ys (length ys)) = (mk_vector ys (length ys), mk_vector xs c)"
    by (simp add: Swap_def RawMemory_Swap_def mk_vector_def)
  show ?thesis
    using assms(2,4)
    by (simp add: assign_copy_def sz Vector_copy_ok [OF assms(3) ne assms(5)] sw Vector_dtor_ok [OF assms(1)])
qed

lemma assign_copy_swap_throw:
  assumes "length xs \<le> c" "c < length ys" "length ys \<le> d" "a \<noteq> b" "\<not> calm (Suc (length ys)) w"
  shows "\<exists>e w'. assign_copy a (mk_vector xs c) b (mk_vector ys d) w = (Throw e, mk_vector xs c, w')"
proof -
  from assms(2) have ne: "ys \<noteq> []" by auto
  have sz: "size_v (mk_vector ys d) = length ys" "capacity (data (mk_vector xs c)) = c"
    by (simp_all add: mk_vector_def)
  from Vector_copy_throw [OF assms(3) ne assms(5)]
  obtain e w' where "Vector_copy (mk_vector ys d) w = (Throw e, w')" by blast
  then show ?thesis
    using assms(2,4) by (simp add: assign_copy_def sz)
qed

section \<open>Size and capacity\<close>

lemma fields_with_buffer [simp]: "fields (with_buffer this b) = fields this"
  by (simp add: fields_def with_buffer_def)

lemma Reserve_fields:
  "Reserve T this n w = (r, this', w') \<Longrightarrow>
   size_v this' = size_v this \<and>
   (capacity (data this') = capacity (data this) \<or>
    capacity (data this') = n \<and> capacity (data this) < n)"
  by (auto simp: Reserve_def RawMemory_new_def RawMemory_Swap_def with_buffer_def Allocate_def
      split: if_splits prod.splits result.splits)

lemma EmplaceWithoutRelocation_try_fields:
  "EmplaceWithoutRelocation_try T this pos a w = (r, this', w') \<Longrightarrow> fields this' = fields this"
  by (auto simp: EmplaceWithoutRelocation_try_def Let_def
      split: if_splits prod.splits result.splits slot.splits bool.splits)

lemma EmplaceWithoutRelocation_fields:
  "EmplaceWithoutRelocation T this pos a w = (r, this', w') \<Longrightarrow> fields this' = fields this"
  by (auto simp: EmplaceWithoutRelocation_def operator_delete_end_def
      dest!: EmplaceWithoutRelocation_try_fields
      split: if_splits prod.splits result.splits)

lemma EmplaceWithRelocation_fields:
  "EmplaceWithRelocation T this pos a w = (r, this', w') \<Longrightarrow>
   size_v this' = size_v this \<and>
   (capacity (data this') = capacity (data this) \<or>
    capacity (data this') = new_capacity (size_v this))"
  by (auto simp: EmplaceWithRelocation_def Let_def RawMemory_new_def RawMemory_Swap_def with_buffer_def
      Allocate_def new_capacity_def
      split: if_splits prod.splits result.splits bool.splits)

lemma new_capacity_ge: "Suc n \<le> new_capacity n"
  using new_capacity_gt [of n] by simp

lemma Emplace_inv:
  assumes "size_v this \<le> capacity (data this)" "Emplace T this pos a w = (r, this', w')"
  shows "size_v this' \<le> capacity (data this')"
proof (cases "capacity (data this) > size_v this")
  case True
  obtain r1 this1 w1 where e: "EmplaceWithoutRelocation T this pos a w = (r1, this1, w1)"
    by (cases "EmplaceWithoutRelocation T this pos a w") auto
  from EmplaceWithoutRelocation_fields [OF e] have f: "size_v this1 = size_v this"
    "capacity (data this1) = capacity (data this)" by (simp_all add: fields_def)
  from assms(2) True e f assms(1) show ?thesis
    by (auto simp: Emplace_def Let_def split: if_splits result.splits)
next
  case False
  obtain r1 this1 w1 where e: "EmplaceWithRelocation T this pos a w = (r1, this1, w1)"
    by (cases "EmplaceWithRelocation T this pos a w") auto
  from EmplaceWithRelocation_fields [OF e] have f: "size_v this1 = size_v this"
    "capacity (data this1) = capacity (data this) \<or> capacity (data this1) = new_capacity (size_v this)"
    by simp_all
  from False assms(1) have eq: "capacity (data this) = size_v this" by simp
  have ok: "r1 = Ok () \<Longrightarrow> capacity (data this1) = new_capacity (size_v this)"
    using e
    by (auto simp: EmplaceWithRelocation_def Let_def RawMemory_new_def RawMemory_Swap_def Allocate_def
        new_capacity_def split: if_splits prod.splits result.splits bool.splits)
  from assms(2) False e f assms(1) ok new_capacity_ge [of "size_v this"] show ?thesis
    by (auto simp: Emplace_def Let_def split: if_splits result.splits)
qed

lemma EmplaceBack_inv:
  assumes "size_v this \<le> capacity (data this)" "EmplaceBack T this a w = (r, this', w')"
  shows "size_v this' \<le> capacity (data this')"
proof -
  obtain r1 this1 w1 where e: "Emplace T this (size_v this) a w = (r1, this1, w1)"
    by (cases "Emplace T this (size_v this) a w") auto
  from Emplace_inv [OF assms(1) e] assms(2) e show ?thesis
    by (auto simp: EmplaceBack_def split: if_splits result.splits)
qed

lemma PushBack_inv:
  assumes "size_v this \<le> capacity (data this)" "PushBack T this a w = (r, this', w')"
  shows "size_v this' \<le> capacity (data this')"
proof -
  obtain r1 this1 w1 where e: "EmplaceBack T this a w = (r1, this1, w1)"
    by (cases "EmplaceBack T this a w") auto
  from EmplaceBack_inv [OF assms(1) e] assms(2) e show ?thesis
    by (auto simp: PushBack_def split: result.splits)
qed

lemma Erase_inv:
  assumes "size_v this \<le> capacity (data this)" "Erase T this pos w = (r, this', w')"
  shows "size_v this' \<le> capacity (data this')"
  using assms
  by (auto simp: Erase_def Let_def with_buffer_def split: if_splits prod.splits result.splits)

lemma PopBack_inv:
  assumes "size_v this \<le> capacity (data this)" "PopBack this w = (r, this', w')"
  shows "size_v this' \<le> capacity (data this')"
  using assms
  by (auto simp: PopBack_def with_buffer_def split: if_splits prod.splits result.splits)

lemma Reserve_inv:
  assumes "size_v this \<le> capacity (data this)" "Reserve T this n w = (r, this', w')"
  shows "size_v this' \<le> capacity (data this')"
  using Reserve_fields [OF assms(2)] assms(1) by auto

lemma Reserve_Ok_capacity:
  "Reserve T this n w = (Ok (), this', w') \<Longrightarrow> n \<le> capacity (data this')"
  by (auto simp: Reserve_def RawMemory_new_def RawMemory_Swap_def Allocate_def
      split: if_splits prod.splits result.splits)

lemma Resize_inv:
  assumes "size_v this \<le> capacity (data this)" "Resize T this n w = (r, this', w')"
  shows "size_v this' \<le> capacity (data this')"
proof (cases "n < size_v this")
  case True
  with assms show ?thesis
    by (auto simp: Resize_def with_buffer_def split: prod.splits result.splits)
next
  case False
  show ?thesis
  proof (cases "n > capacity (data this)")
    case g: True
    obtain r1 this1 w1 where e: "Reserve T this (max (capacity (data this) * 2) n) w = (r1, this1, w1)"
      by (cases "Reserve T this (max (capacity (data this) * 2) n) w") auto
    from Reserve_inv [OF assms(1) e] have i: "size_v this1 \<le> capacity (data this1)" .
    have c: "r1 = Ok () \<Longrightarrow> n \<le> capacity (data this1)"
      using Reserve_Ok_capacity [of T this "max (capacity (data this) * 2) n" w this1 w1] e by simp
    from assms(2) False g e i c show ?thesis
      by (auto simp: Resize_def Let_def with_buffer_def split: prod.splits result.splits)
  next
    case ng: False
    with assms False show ?thesis
      by (auto simp: Resize_def with_buffer_def split: prod.splits result.splits)
  qed
qed

lemma Vector_sized_inv:
  "Vector_sized T n w = (Ok v, w') \<Longrightarrow> size_v v \<le> capacity (data v)"
  by (auto simp: Vector_sized_def RawMemory_new_def Allocate_def
      split: if_splits prod.splits result.splits)

lemma Vector_copy_inv:
  "Vector_copy other w = (Ok v, w') \<Longrightarrow> size_v v \<le> capacity (data v)"
  by (auto simp: Vector_copy_def RawMemory_new_def Allocate_def
      split: if_splits prod.splits result.splits)

lemma assign_copy_inv:
  assumes "size_v this \<le> capacity (data this)" "assign_copy a this b rhs w = (r, this', w')"
  shows "size_v this' \<le> capacity (data this')"
proof (cases "a \<noteq> b")
  case False
  with assms show ?thesis by (simp add: assign_copy_def)
next
  case ne: True
  show ?thesis
  proof (cases "size_v rhs \<le> capacity (data this)")
    case fit: True
    obtain r1 b1 w1 where c: "copy_n (buffer (data rhs)) 0 (min (size_v this) (size_v rhs))
        (buffer (data this)) 0 w = (r1, b1, w1)"
      by (cases "copy_n (buffer (data rhs)) 0 (min (size_v this) (size_v rhs)) (buffer (data this)) 0 w") auto
    obtain r2 b2 w2 where d: "(if size_v this > size_v rhs then
                         destroy_n b1 (size_v rhs) (size_v this - size_v rhs) w1
                       else if size_v this < size_v rhs then
                         uninitialized_copy_n (buffer (data rhs)) (size_v this) (size_v rhs - size_v this)
                           b1 (size_v this) w1
                       else (Ok (), b1, w1)) = (r2, b2, w2)"
      by (metis prod_cases3)
    have "fields this' = fields this \<or> fields this' = (size_v rhs, capacity (data this))"
    proof (cases r1)
      case (Ok u)
      with assms(2) ne fit c d show ?thesis
        by (cases r2) (auto simp: assign_copy_def Let_def fields_def with_buffer_def)
    next
      case (Throw x)
      with assms(2) ne fit c show ?thesis
        by (auto simp: assign_copy_def Let_def)
    next
      case UB
      with assms(2) ne fit c show ?thesis
        by (auto simp: assign_copy_def Let_def)
    qed
    with assms(1) fit show ?thesis by (auto simp: fields_def)
  next
    case False
    obtain r1 w1 where e: "Vector_copy rhs w = (r1, w1)" by (cases "Vector_copy rhs w") auto
    show ?thesis
    proof (cases r1)
      case (Ok v)
      with e have "size_v v \<le> capacity (data v)" by (simp add: Vector_copy_inv)
      with assms ne False e Ok show ?thesis
        by (auto simp: assign_copy_def Swap_def RawMemory_Swap_def split: prod.splits result.splits)
    next
      case (Throw x)
      with assms ne False e show ?thesis by (auto simp: assign_copy_def)
    next
      case UB
      with assms ne False e show ?thesis by (auto simp: assign_copy_def)
    qed
  qed
qed

section \<open>The claims\<close>



text \<open>
  C10. \<^verbatim>\<open>PopBack\<close> on a vector of size 0 returns with the vector and the world
  unchanged, whatever the fault script. On a non-empty vector it returns as well, having
  destroyed the last element and nothing else: the size is one less, the capacity and
  the other elements are the same.
\<close>

theorem PopBack_spec:
  "(size_v this = 0 \<longrightarrow> PopBack this w = (Ok (), this, w)) \<and>
   (xs \<noteq> [] \<and> length xs \<le> c \<longrightarrow>
      PopBack (mk_vector xs c) w = (Ok (), mk_vector (butlast xs) c, emit (Destroy (last xs)) w) \<and>
      Capacity (mk_vector (butlast xs) c) = Capacity (mk_vector xs c) \<and>
      Size (mk_vector (butlast xs) c) = Size (mk_vector xs c) - 1 \<and>
      elements (mk_vector (butlast xs) c) = butlast (elements (mk_vector xs c)))"
proof (intro conjI impI)
  assume "size_v this = 0"
  then show "PopBack this w = (Ok (), this, w)" by (rule PopBack_empty)
next
  assume a: "xs \<noteq> [] \<and> length xs \<le> c"
  then obtain ys y where xs: "xs = ys @ [y]" by (cases xs rule: rev_cases) auto
  with a have "length ys < c" by simp
  then show "PopBack (mk_vector xs c) w = (Ok (), mk_vector (butlast xs) c, emit (Destroy (last xs)) w)"
    by (simp add: xs PopBack_snoc)
  show "Capacity (mk_vector (butlast xs) c) = Capacity (mk_vector xs c)" by simp
  show "Size (mk_vector (butlast xs) c) = Size (mk_vector xs c) - 1" by simp
  from a have "length (butlast xs) \<le> c" by auto
  with a show "elements (mk_vector (butlast xs) c) = butlast (elements (mk_vector xs c))"
    by (simp add: elements_mk_vector)
qed

theorem PopBack_spec_witness:
  "size_v (mk_vector ([] :: int list) 2) = 0 \<and>
   PopBack (mk_vector [] 2) (script []) = (Ok (), mk_vector [] 2, script []) \<and>
   [1, 2, 3 :: int] \<noteq> [] \<and> length [1, 2, 3 :: int] \<le> 4 \<and>
   PopBack (mk_vector [1, 2, 3] 4) (script []) =
     (Ok (), mk_vector [1, 2] 4, \<lparr>faults = [], log = [Destroy 3]\<rparr>)"
  using PopBack_spec [of "mk_vector ([] :: int list) 2" "script []" "[1, 2, 3]" 4]
  by (simp add: mk_vector_def script_def emit_def)





text \<open>
  C4. The claim that relocation moves exactly when the move constructor cannot throw,
  and copies otherwise, fails for a type without a copy constructor whose move
  constructor may throw: \<^verbatim>\<open>Reserve\<close> moves its elements, and when a move throws the
  vector keeps a moved-from element.
\<close>

theorem relocation_choice_counterexample:
  "\<not> nothrow_move_constructible T_move_only \<and>
   Reserve T_move_only (mk_vector [1, 2] 2) 4 (script []) =
     (Ok (), mk_vector [1, 2] 4,
      \<lparr>faults = [], log = [New 4, Move 1, Move 2, Destroy 0, Destroy 0, Delete 2]\<rparr>) \<and>
   Reserve T_move_only (mk_vector [1, 2] 2) 4 (script [False, False, True]) =
     (Throw element_exception, mk_vector [0, 2] 2,
      \<lparr>faults = [], log = [New 4, Move 1, Destroy 1, Delete 4]\<rparr>)"
  by code_simp

text \<open>
  C4, as the code has it: the source's condition is
  \<^verbatim>\<open>is_nothrow_move_constructible_v<T> || !is_copy_constructible_v<T>\<close>. Relocation during
  growth (in \<^verbatim>\<open>Reserve\<close> and in \<^verbatim>\<open>Emplace\<close> into a full vector) move-constructs every
  element when the move constructor is \<^verbatim>\<open>noexcept\<close> or the type has no copy constructor,
  and copy-constructs every element otherwise. The log of a call that returns shows
  which: \<open>Move\<close> events and the destruction of moved-from objects, or \<open>Copy\<close> events and
  the destruction of the originals.
\<close>

theorem relocation_choice:
  "(length xs \<le> c \<and> c < n \<and> calm (Suc (reloc_cost T (length xs))) w \<longrightarrow>
      Reserve T (mk_vector xs c) n w =
        (Ok (), mk_vector xs n,
         advance (Suc (reloc_cost T (length xs)))
           (New n #
            (if nothrow_move_constructible T \<or> \<not> copy_constructible T
             then map Move xs @ map Destroy (map (moved_from T) xs)
             else map Copy xs @ map Destroy xs) @
            delete_events c) w)) \<and>
   (pos \<le> length xs \<and> 0 \<le> int_of_ptrdiff pos \<and>
    calm (Suc (construct_cost T a + reloc_cost T (length xs))) w \<longrightarrow>
      Emplace T (mk_vector xs (length xs)) pos a w =
        (Ok (nat (int_of_ptrdiff pos)),
         mk_vector (take (nat (int_of_ptrdiff pos)) xs @ arg_value a # drop (nat (int_of_ptrdiff pos)) xs)
           (new_capacity (length xs)),
         advance (Suc (construct_cost T a + reloc_cost T (length xs)))
           (New (new_capacity (length xs)) # construct_event a #
            (if nothrow_move_constructible T \<or> \<not> copy_constructible T
             then map Move xs @ map Destroy (map (moved_from T) xs)
             else map Copy xs @ map Destroy xs) @
            delete_events (length xs)) w))"
proof (intro conjI impI)
  assume "length xs \<le> c \<and> c < n \<and> calm (Suc (reloc_cost T (length xs))) w"
  then show "Reserve T (mk_vector xs c) n w =
        (Ok (), mk_vector xs n,
         advance (Suc (reloc_cost T (length xs)))
           (New n #
            (if nothrow_move_constructible T \<or> \<not> copy_constructible T
             then map Move xs @ map Destroy (map (moved_from T) xs)
             else map Copy xs @ map Destroy xs) @
            delete_events c) w)"
    by (simp add: Reserve_grow_ok reloc_events_def reloc_left_def relocates_by_move_def)
next
  assume "pos \<le> length xs \<and> 0 \<le> int_of_ptrdiff pos \<and>
    calm (Suc (construct_cost T a + reloc_cost T (length xs))) w"
  then show "Emplace T (mk_vector xs (length xs)) pos a w =
        (Ok (nat (int_of_ptrdiff pos)),
         mk_vector (take (nat (int_of_ptrdiff pos)) xs @ arg_value a # drop (nat (int_of_ptrdiff pos)) xs)
           (new_capacity (length xs)),
         advance (Suc (construct_cost T a + reloc_cost T (length xs)))
           (New (new_capacity (length xs)) # construct_event a #
            (if nothrow_move_constructible T \<or> \<not> copy_constructible T
             then map Move xs @ map Destroy (map (moved_from T) xs)
             else map Copy xs @ map Destroy xs) @
            delete_events (length xs)) w)"
    by (simp add: Emplace_full_ok reloc_events_def reloc_left_def relocates_by_move_def)
qed

theorem relocation_choice_witness:
  "length [1, 2 :: int] \<le> 2 \<and> (2 :: nat) < 4 \<and> calm (Suc (reloc_cost T_nothrow (length [1, 2 :: int]))) (script [False]) \<and>
   Reserve T_nothrow (mk_vector [1, 2] 2) 4 (script [False]) =
     (Ok (), mk_vector [1, 2] 4,
      \<lparr>faults = [], log = [New 4, Move 1, Move 2, Destroy 0, Destroy 0, Delete 2]\<rparr>) \<and>
   calm (Suc (reloc_cost T_copy (length [1, 2 :: int]))) (script [False]) \<and>
   Reserve T_copy (mk_vector [1, 2] 2) 4 (script [False]) =
     (Ok (), mk_vector [1, 2] 4,
      \<lparr>faults = [], log = [New 4, Copy 1, Copy 2, Destroy 1, Destroy 2, Delete 2]\<rparr>) \<and>
   (1 :: nat) \<le> length [1, 2 :: int] \<and> 0 \<le> int_of_ptrdiff 1 \<and>
   calm (Suc (construct_cost T_move_only (ByCtor 7) + reloc_cost T_move_only (length [1, 2 :: int]))) (script []) \<and>
   Emplace T_move_only (mk_vector [1, 2] 2) 1 (ByCtor 7) (script []) =
     (Ok 1, mk_vector [1, 7, 2] 4,
      \<lparr>faults = [], log = [New 4, Construct 7, Move 1, Move 2, Destroy 0, Destroy 0, Delete 2]\<rparr>)"
proof -
  have c1: "calm (Suc (reloc_cost T_nothrow (length [1, 2 :: int]))) (script [False])" by code_simp
  have c2: "calm (Suc (reloc_cost T_copy (length [1, 2 :: int]))) (script [False])" by code_simp
  have c3: "calm (Suc (construct_cost T_move_only (ByCtor 7) + reloc_cost T_move_only (length [1, 2 :: int]))) (script [])"
    by code_simp
  have p: "0 \<le> int_of_ptrdiff 1" by (simp add: int_of_ptrdiff_def)
  have r1: "Reserve T_nothrow (mk_vector [1, 2] 2) 4 (script [False]) =
     (Ok (), mk_vector [1, 2] 4,
      \<lparr>faults = [], log = [New 4, Move 1, Move 2, Destroy 0, Destroy 0, Delete 2]\<rparr>)" by code_simp
  have r2: "Reserve T_copy (mk_vector [1, 2] 2) 4 (script [False]) =
     (Ok (), mk_vector [1, 2] 4,
      \<lparr>faults = [], log = [New 4, Copy 1, Copy 2, Destroy 1, Destroy 2, Delete 2]\<rparr>)" by code_simp
  have e: "Emplace T_move_only (mk_vector [1, 2] 2) 1 (ByCtor 7) (script []) =
     (Ok 1, mk_vector [1, 7, 2] 4,
      \<lparr>faults = [], log = [New 4, Construct 7, Move 1, Move 2, Destroy 0, Destroy 0, Delete 2]\<rparr>)" by code_simp
  from relocation_choice [of "[1, 2]" 2 4 T_nothrow "script [False]" 1 "ByCtor 7"]
    relocation_choice [of "[1, 2]" 2 4 T_copy "script [False]" 1 "ByCtor 7"]
    relocation_choice [of "[1, 2]" 2 4 T_move_only "script []" 1 "ByCtor 7"]
    c1 c2 c3 p r1 r2 e
  show ?thesis by simp
qed

text \<open>
  C2. \<^verbatim>\<open>Emplace\<close> keeps the position in an \<^verbatim>\<open>int\<close>. Of the distance \<open>2 ^ 32\<close> it
  keeps \<open>0\<close>: on a vector of \<open>2 ^ 32 + 1\<close> elements with spare capacity, \<^verbatim>\<open>Emplace\<close> at
  index \<open>2 ^ 32\<close> (in front of the last element) returns with the new element in front
  of all others, and the iterator it returns denotes index \<open>0\<close>. For positions below
  \<open>2 ^ 31\<close> and no fault the element is inserted where the claim says
  (\<open>Emplace_small_position\<close>).
\<close>

theorem Emplace_truncates_position:
  "fst (Emplace T_nothrow (mk_vector (replicate (2 ^ 32) 7 @ [8]) (2 ^ 32 + 2)) (2 ^ 32) (ByCtor 9) (script [])) = Ok 0 \<and>
   fst (snd (Emplace T_nothrow (mk_vector (replicate (2 ^ 32) 7 @ [8]) (2 ^ 32 + 2)) (2 ^ 32) (ByCtor 9) (script []))) =
     mk_vector (9 # replicate (2 ^ 32) 7 @ [8]) (2 ^ 32 + 2)"
proof -
  have l: "length (replicate (2 ^ 32) (7 :: int)) + 1 < 2 ^ 32 + 2" by simp
  have p: "(2 ^ 32 :: nat) \<le> length (replicate (2 ^ 32) (7 :: int))" by simp
  have z: "0 \<le> int_of_ptrdiff (2 ^ 32)" by (simp add: int_of_ptrdiff_wraps)
  show ?thesis
    unfolding Emplace_in_place_mid [OF l p z calm_script_Nil]
    by (simp add: int_of_ptrdiff_wraps)
qed

text \<open>
  C8. \<^verbatim>\<open>Erase\<close> keeps the position in an \<^verbatim>\<open>int\<close> as well: on a vector of
  \<open>2 ^ 32 + 1\<close> elements, \<^verbatim>\<open>Erase\<close> at index \<open>2 ^ 32\<close> (the last element) returns
  having removed the first element; the last one is still there. For positions below
  \<open>2 ^ 31\<close> and no fault the element at the position is the one removed
  (\<open>Erase_small_position\<close>).
\<close>

theorem Erase_truncates_position:
  "fst (Erase T_nothrow (mk_vector (8 # replicate (2 ^ 32) 7) (2 ^ 32 + 1)) (2 ^ 32) (script [])) = Ok 0 \<and>
   fst (snd (Erase T_nothrow (mk_vector (8 # replicate (2 ^ 32) 7) (2 ^ 32 + 1)) (2 ^ 32) (script []))) =
     mk_vector (replicate (2 ^ 32) 7) (2 ^ 32 + 1)"
proof -
  have l: "length ([] :: int list) + length (replicate (2 ^ 32) (7 :: int)) < 2 ^ 32 + 1" by simp
  have p: "(2 ^ 32 :: nat) \<le> Suc (length ([] :: int list) + length (replicate (2 ^ 32) (7 :: int)))" by simp
  have z: "0 \<le> int_of_ptrdiff (2 ^ 32)" by (simp add: int_of_ptrdiff_wraps)
  have n: "nat (int_of_ptrdiff (2 ^ 32)) = length ([] :: int list)" by (simp add: int_of_ptrdiff_wraps)
  have e: "Erase T_nothrow (mk_vector ([] @ 8 # replicate (2 ^ 32) 7) (2 ^ 32 + 1)) (2 ^ 32) (script []) =
     (Ok (length ([] :: int list)), mk_vector ([] @ replicate (2 ^ 32) 7) (2 ^ 32 + 1),
      advance (length (replicate (2 ^ 32) (7 :: int)))
        (map MoveAssign (replicate (2 ^ 32) 7) @
         [Destroy (if replicate (2 ^ 32) (7 :: int) = [] then 8
                   else moved_from T_nothrow (last (replicate (2 ^ 32) 7)))]) (script []))"
    by (rule Erase_ok [OF l p z n calm_script_Nil])
  have a: "[] @ 8 # replicate (2 ^ 32) (7 :: int) = 8 # replicate (2 ^ 32) 7"
    "[] @ replicate (2 ^ 32) (7 :: int) = replicate (2 ^ 32) 7" "length ([] :: int list) = 0"
    by (rule append_Nil, rule append_Nil, rule list.size(3))
  show ?thesis
    using e unfolding a by (simp only: fst_conv snd_conv simp_thms)
qed




text \<open>
  C7. Copy assignment between two distinct vectors, \<open>lhs\<close> with the elements \<open>xs\<close> and
  capacity \<open>c\<close>, \<open>rhs\<close> with the elements \<open>ys\<close>. (\<open>rhs\<close> is a \<^verbatim>\<open>const\<close> reference: the
  model writes nothing through it.) A call that returns leaves \<open>lhs\<close> with the elements
  \<open>ys\<close>. When \<open>ys\<close> fits into \<open>c\<close>, the call copy-assigns over the common prefix and then
  destroys the elements of \<open>xs\<close> beyond it, or copy-constructs the elements of \<open>ys\<close>
  beyond it; the capacity stays \<open>c\<close> and the log has no allocation. When \<open>ys\<close> does not
  fit, the call copies \<open>rhs\<close> into a new vector, swaps, and destroys the old elements;
  if the allocation or a copy throws, \<open>lhs\<close> is as it was.
\<close>

theorem assign_copy_spec:
  "length xs \<le> c \<and> length ys \<le> d \<and> a \<noteq> b \<longrightarrow>
     (\<forall>this' w'. assign_copy a (mk_vector xs c) b (mk_vector ys d) w = (Ok (), this', w') \<longrightarrow>
        elements this' = ys \<and> this' = mk_vector ys (if length ys \<le> c then c else length ys)) \<and>
     (length ys \<le> c \<and> calm (length ys) w \<longrightarrow>
        assign_copy a (mk_vector xs c) b (mk_vector ys d) w =
          (Ok (), mk_vector ys c,
           advance (length ys)
             (map CopyAssign (take (length xs) ys) @
              (if length ys < length xs then map Destroy (drop (length ys) xs)
               else map Copy (drop (length xs) ys))) w)) \<and>
     (c < length ys \<and> calm (Suc (length ys)) w \<longrightarrow>
        assign_copy a (mk_vector xs c) b (mk_vector ys d) w =
          (Ok (), mk_vector ys (length ys),
           advance (Suc (length ys))
             (New (length ys) # map Copy ys @ map Destroy xs @ delete_events c) w)) \<and>
     (c < length ys \<and> \<not> calm (Suc (length ys)) w \<longrightarrow>
        (\<exists>e w'. assign_copy a (mk_vector xs c) b (mk_vector ys d) w = (Throw e, mk_vector xs c, w')))"
proof (intro impI conjI allI)
  fix this' w'
  assume h: "length xs \<le> c \<and> length ys \<le> d \<and> a \<noteq> b"
    and ok: "assign_copy a (mk_vector xs c) b (mk_vector ys d) w = (Ok (), this', w')"
  have eq: "this' = mk_vector ys (if length ys \<le> c then c else length ys)"
  proof (cases "length ys \<le> c")
    case True
    have "calm (length ys) w"
    proof (rule ccontr)
      assume "\<not> calm (length ys) w"
      from assign_copy_fit_throw [OF _ True _ _ this, of xs d a b] h ok show False by auto
    qed
    from assign_copy_fit_ok [OF _ True _ _ this, of xs d a b] h ok True show ?thesis by simp
  next
    case False
    then have lt: "c < length ys" by simp
    have "calm (Suc (length ys)) w"
    proof (rule ccontr)
      assume "\<not> calm (Suc (length ys)) w"
      from assign_copy_swap_throw [OF _ lt _ _ this, of xs d a b] h ok show False by auto
    qed
    from assign_copy_swap_ok [OF _ lt _ _ this, of xs d a b] h ok False show ?thesis by simp
  qed
  then show "this' = mk_vector ys (if length ys \<le> c then c else length ys)" .
  show "elements this' = ys"
    unfolding eq by (rule elements_mk_vector) simp
next
  assume h: "length xs \<le> c \<and> length ys \<le> d \<and> a \<noteq> b" and f: "length ys \<le> c \<and> calm (length ys) w"
  from assign_copy_fit_ok [of xs c ys d a b w] h f
  show "assign_copy a (mk_vector xs c) b (mk_vector ys d) w =
          (Ok (), mk_vector ys c,
           advance (length ys)
             (map CopyAssign (take (length xs) ys) @
              (if length ys < length xs then map Destroy (drop (length ys) xs)
               else map Copy (drop (length xs) ys))) w)"
    by (simp add: assign_events_def)
next
  assume h: "length xs \<le> c \<and> length ys \<le> d \<and> a \<noteq> b" and f: "c < length ys \<and> calm (Suc (length ys)) w"
  from assign_copy_swap_ok [of xs c ys d a b w] h f
  show "assign_copy a (mk_vector xs c) b (mk_vector ys d) w =
          (Ok (), mk_vector ys (length ys),
           advance (Suc (length ys))
             (New (length ys) # map Copy ys @ map Destroy xs @ delete_events c) w)"
    by simp
next
  assume h: "length xs \<le> c \<and> length ys \<le> d \<and> a \<noteq> b" and f: "c < length ys \<and> \<not> calm (Suc (length ys)) w"
  from assign_copy_swap_throw [of xs c ys d a b w] h f
  show "\<exists>e w'. assign_copy a (mk_vector xs c) b (mk_vector ys d) w = (Throw e, mk_vector xs c, w')"
    by simp
qed

theorem assign_copy_spec_witness:
  "length [1, 2, 3 :: int] \<le> 4 \<and> length [7, 8 :: int] \<le> 2 \<and> (0 :: nat) \<noteq> 1 \<and>
   calm (length [7, 8 :: int]) (script []) \<and>
   assign_copy 0 (mk_vector [1, 2, 3] 4) 1 (mk_vector [7, 8] 2) (script []) =
     (Ok (), mk_vector [7, 8] 4, \<lparr>faults = [], log = [CopyAssign 7, CopyAssign 8, Destroy 3]\<rparr>) \<and>
   elements (mk_vector [7, 8 :: int] 4) = [7, 8] \<and>
   assign_copy 0 (mk_vector [7, 8] 4) 1 (mk_vector [1, 2, 3] 3) (script []) =
     (Ok (), mk_vector [1, 2, 3] 4, \<lparr>faults = [], log = [CopyAssign 1, CopyAssign 2, Copy 3]\<rparr>) \<and>
   (2 :: nat) < length [1, 2, 3 :: int] \<and> calm (Suc (length [1, 2, 3 :: int])) (script []) \<and>
   assign_copy 0 (mk_vector [7, 8] 2) 1 (mk_vector [1, 2, 3] 3) (script []) =
     (Ok (), mk_vector [1, 2, 3] 3,
      \<lparr>faults = [], log = [New 3, Copy 1, Copy 2, Copy 3, Destroy 7, Destroy 8, Delete 2]\<rparr>) \<and>
   \<not> calm (Suc (length [1, 2, 3 :: int])) (script [False, False, True]) \<and>
   assign_copy 0 (mk_vector [7, 8] 2) 1 (mk_vector [1, 2, 3] 3) (script [False, False, True]) =
     (Throw element_exception, mk_vector [7, 8] 2,
      \<lparr>faults = [], log = [New 3, Copy 1, Destroy 1, Delete 3]\<rparr>)"
proof -
  have a1: "assign_copy 0 (mk_vector [1, 2, 3] 4) 1 (mk_vector [7, 8] 2) (script []) =
     (Ok (), mk_vector [7, 8] 4, \<lparr>faults = [], log = [CopyAssign 7, CopyAssign 8, Destroy 3]\<rparr>)"
    by code_simp
  have a2: "assign_copy 0 (mk_vector [7, 8] 4) 1 (mk_vector [1, 2, 3] 3) (script []) =
     (Ok (), mk_vector [1, 2, 3] 4, \<lparr>faults = [], log = [CopyAssign 1, CopyAssign 2, Copy 3]\<rparr>)"
    by code_simp
  have a3: "assign_copy 0 (mk_vector [7, 8] 2) 1 (mk_vector [1, 2, 3] 3) (script []) =
     (Ok (), mk_vector [1, 2, 3] 3,
      \<lparr>faults = [], log = [New 3, Copy 1, Copy 2, Copy 3, Destroy 7, Destroy 8, Delete 2]\<rparr>)"
    by code_simp
  have a4: "assign_copy 0 (mk_vector [7, 8] 2) 1 (mk_vector [1, 2, 3] 3) (script [False, False, True]) =
     (Throw element_exception, mk_vector [7, 8] 2,
      \<lparr>faults = [], log = [New 3, Copy 1, Destroy 1, Delete 3]\<rparr>)"
    by code_simp
  have c1: "calm (length [7, 8 :: int]) (script [])" "calm (Suc (length [1, 2, 3 :: int])) (script [])"
    by (simp_all add: calm_script_Nil)
  have c2: "\<not> calm (Suc (length [1, 2, 3 :: int])) (script [False, False, True])" by code_simp
  from assign_copy_spec [of "[1, 2, 3]" 4 "[7, 8]" 2 0 1 "script []"] a1
  have "elements (mk_vector [7, 8 :: int] 4) = [7, 8]" by simp
  with a1 a2 a3 a4 c1 c2 show ?thesis by simp
qed

text \<open>
  C9. The size never exceeds the capacity. A default-constructed vector has both zero;
  a vector built by the sized or the copy constructor, when the constructor returns,
  has its size at most its capacity. For vectors \<open>this\<close> and \<open>other\<close> that satisfy the
  bound, so do both vectors after move construction, \<^verbatim>\<open>Swap\<close> and move assignment, and
  so does \<open>this\<close> after copy assignment, \<^verbatim>\<open>Reserve\<close>, \<^verbatim>\<open>Resize\<close>, \<^verbatim>\<open>PushBack\<close>,
  \<^verbatim>\<open>EmplaceBack\<close>, both \<^verbatim>\<open>Insert\<close> overloads, \<^verbatim>\<open>Emplace\<close>, \<^verbatim>\<open>PopBack\<close> and \<^verbatim>\<open>Erase\<close>,
  for every argument and every fault script: whether the call returns or throws. The
  size is a natural number, so \<open>0 \<le> size\<close> holds by its type. The statement compares
  the members \<^verbatim>\<open>size_\<close> and \<^verbatim>\<open>capacity_\<close>; where a call has undefined behaviour the
  vector is the one the call started from.
\<close>

theorem size_le_capacity:
  "Size (Vector_default :: 'a Vector) \<le> Capacity (Vector_default :: 'a Vector) \<and>
   (\<forall>v w'. Vector_sized T n w = (Ok v, w') \<longrightarrow> Size v \<le> Capacity v) \<and>
   (\<forall>v w'. Vector_copy other w = (Ok v, w') \<longrightarrow> Size v \<le> Capacity v) \<and>
   (Size this \<le> Capacity this \<and> Size other \<le> Capacity other \<longrightarrow>
      Size (fst (Vector_move this)) \<le> Capacity (fst (Vector_move this)) \<and>
      Size (snd (Vector_move this)) \<le> Capacity (snd (Vector_move this)) \<and>
      Size (fst (Swap this other)) \<le> Capacity (fst (Swap this other)) \<and>
      Size (snd (Swap this other)) \<le> Capacity (snd (Swap this other)) \<and>
      Size (fst (assign_move this other)) \<le> Capacity (fst (assign_move this other)) \<and>
      Size (snd (assign_move this other)) \<le> Capacity (snd (assign_move this other)) \<and>
      Size (fst (snd (assign_copy a this b other w))) \<le> Capacity (fst (snd (assign_copy a this b other w))) \<and>
      Size (fst (snd (Reserve T this n w))) \<le> Capacity (fst (snd (Reserve T this n w))) \<and>
      Size (fst (snd (Resize T this n w))) \<le> Capacity (fst (snd (Resize T this n w))) \<and>
      Size (fst (snd (PushBack T this arg w))) \<le> Capacity (fst (snd (PushBack T this arg w))) \<and>
      Size (fst (snd (EmplaceBack T this arg w))) \<le> Capacity (fst (snd (EmplaceBack T this arg w))) \<and>
      Size (fst (snd (Insert_copy T this pos x w))) \<le> Capacity (fst (snd (Insert_copy T this pos x w))) \<and>
      Size (fst (snd (Insert_move T this pos x w))) \<le> Capacity (fst (snd (Insert_move T this pos x w))) \<and>
      Size (fst (snd (Emplace T this pos arg w))) \<le> Capacity (fst (snd (Emplace T this pos arg w))) \<and>
      Size (fst (snd (PopBack this w))) \<le> Capacity (fst (snd (PopBack this w))) \<and>
      Size (fst (snd (Erase T this pos w))) \<le> Capacity (fst (snd (Erase T this pos w))))"
proof -
  have d: "Size (Vector_default :: 'a Vector) \<le> Capacity (Vector_default :: 'a Vector)"
    by (simp add: Size_def Capacity_def Vector_default_def RawMemory_default_def)
  have s: "\<forall>v w'. Vector_sized T n w = (Ok v, w') \<longrightarrow> Size v \<le> Capacity v"
    by (auto simp: Size_def Capacity_def dest: Vector_sized_inv)
  have c: "\<forall>v w'. Vector_copy other w = (Ok v, w') \<longrightarrow> Size v \<le> Capacity v"
    by (auto simp: Size_def Capacity_def dest: Vector_copy_inv)
  have ops: "Size (fst (Vector_move this)) \<le> Capacity (fst (Vector_move this)) \<and>
      Size (snd (Vector_move this)) \<le> Capacity (snd (Vector_move this)) \<and>
      Size (fst (Swap this other)) \<le> Capacity (fst (Swap this other)) \<and>
      Size (snd (Swap this other)) \<le> Capacity (snd (Swap this other)) \<and>
      Size (fst (assign_move this other)) \<le> Capacity (fst (assign_move this other)) \<and>
      Size (snd (assign_move this other)) \<le> Capacity (snd (assign_move this other)) \<and>
      Size (fst (snd (assign_copy a this b other w))) \<le> Capacity (fst (snd (assign_copy a this b other w))) \<and>
      Size (fst (snd (Reserve T this n w))) \<le> Capacity (fst (snd (Reserve T this n w))) \<and>
      Size (fst (snd (Resize T this n w))) \<le> Capacity (fst (snd (Resize T this n w))) \<and>
      Size (fst (snd (PushBack T this arg w))) \<le> Capacity (fst (snd (PushBack T this arg w))) \<and>
      Size (fst (snd (EmplaceBack T this arg w))) \<le> Capacity (fst (snd (EmplaceBack T this arg w))) \<and>
      Size (fst (snd (Insert_copy T this pos x w))) \<le> Capacity (fst (snd (Insert_copy T this pos x w))) \<and>
      Size (fst (snd (Insert_move T this pos x w))) \<le> Capacity (fst (snd (Insert_move T this pos x w))) \<and>
      Size (fst (snd (Emplace T this pos arg w))) \<le> Capacity (fst (snd (Emplace T this pos arg w))) \<and>
      Size (fst (snd (PopBack this w))) \<le> Capacity (fst (snd (PopBack this w))) \<and>
      Size (fst (snd (Erase T this pos w))) \<le> Capacity (fst (snd (Erase T this pos w)))"
    if i: "Size this \<le> Capacity this" and j: "Size other \<le> Capacity other"
  proof -
    from i have i': "size_v this \<le> capacity (data this)" by (simp add: Size_def Capacity_def)
    from j have j': "size_v other \<le> capacity (data other)" by (simp add: Size_def Capacity_def)
    have mv: "Size (fst (Vector_move this)) \<le> Capacity (fst (Vector_move this))"
      "Size (snd (Vector_move this)) \<le> Capacity (snd (Vector_move this))"
      using i' by (simp_all add: Vector_move_def RawMemory_move_def Size_def Capacity_def)
    have sw: "Size (fst (Swap this other)) \<le> Capacity (fst (Swap this other))"
      "Size (snd (Swap this other)) \<le> Capacity (snd (Swap this other))"
      using i' j' by (simp_all add: Swap_def RawMemory_Swap_def Size_def Capacity_def)
    have am: "Size (fst (assign_move this other)) \<le> Capacity (fst (assign_move this other))"
      "Size (snd (assign_move this other)) \<le> Capacity (snd (assign_move this other))"
      using sw by (simp_all add: assign_move_def)
    have ac: "Size (fst (snd (assign_copy a this b other w))) \<le> Capacity (fst (snd (assign_copy a this b other w)))"
      using assign_copy_inv [OF i', of a b other w] by (cases "assign_copy a this b other w") (simp add: Size_def Capacity_def)
    have rs: "Size (fst (snd (Reserve T this n w))) \<le> Capacity (fst (snd (Reserve T this n w)))"
      using Reserve_inv [OF i', of T n w] by (cases "Reserve T this n w") (simp add: Size_def Capacity_def)
    have rz: "Size (fst (snd (Resize T this n w))) \<le> Capacity (fst (snd (Resize T this n w)))"
      using Resize_inv [OF i', of T n w] by (cases "Resize T this n w") (simp add: Size_def Capacity_def)
    have pb: "Size (fst (snd (PushBack T this arg w))) \<le> Capacity (fst (snd (PushBack T this arg w)))"
      using PushBack_inv [OF i', of T arg w] by (cases "PushBack T this arg w") (simp add: Size_def Capacity_def)
    have eb: "Size (fst (snd (EmplaceBack T this arg w))) \<le> Capacity (fst (snd (EmplaceBack T this arg w)))"
      using EmplaceBack_inv [OF i', of T arg w] by (cases "EmplaceBack T this arg w") (simp add: Size_def Capacity_def)
    have em: "Size (fst (snd (Emplace T this pos arg' w))) \<le> Capacity (fst (snd (Emplace T this pos arg' w)))" for arg'
      using Emplace_inv [OF i', of T pos arg' w] by (cases "Emplace T this pos arg' w") (simp add: Size_def Capacity_def)
    have pp: "Size (fst (snd (PopBack this w))) \<le> Capacity (fst (snd (PopBack this w)))"
      using PopBack_inv [OF i', of w] by (cases "PopBack this w") (simp add: Size_def Capacity_def)
    have er: "Size (fst (snd (Erase T this pos w))) \<le> Capacity (fst (snd (Erase T this pos w)))"
      using Erase_inv [OF i', of T pos w] by (cases "Erase T this pos w") (simp add: Size_def Capacity_def)
    show ?thesis
      using mv sw am ac rs rz pb eb em pp er
      by (simp only: Insert_copy_def Insert_move_def simp_thms)
  qed
  from d s c ops show ?thesis by blast
qed

theorem size_le_capacity_witness:
  "Vector_sized T_copy 2 (script []) =
     (Ok (mk_vector [0, 0] 2), \<lparr>faults = [], log = [New 2, ValueInit 0, ValueInit 0]\<rparr>) \<and>
   Size (mk_vector [0, 0 :: int] 2) \<le> Capacity (mk_vector [0, 0 :: int] 2) \<and>
   Vector_copy (mk_vector [4, 5] 3) (script []) =
     (Ok (mk_vector [4, 5] 2), \<lparr>faults = [], log = [New 2, Copy 4, Copy 5]\<rparr>) \<and>
   Size (mk_vector [4, 5 :: int] 2) \<le> Capacity (mk_vector [4, 5 :: int] 2) \<and>
   Size (mk_vector [1, 2, 3 :: int] 3) \<le> Capacity (mk_vector [1, 2, 3 :: int] 3) \<and>
   Size (mk_vector [4, 5 :: int] 3) \<le> Capacity (mk_vector [4, 5 :: int] 3) \<and>
   PushBack T_copy (mk_vector [1, 2, 3] 3) (ByCopy 7) (script [False, True]) =
     (Throw element_exception, mk_vector [1, 2, 3] 3, \<lparr>faults = [], log = [New 6, Delete 6]\<rparr>) \<and>
   Size (fst (snd (PushBack T_copy (mk_vector [1, 2, 3] 3) (ByCopy 7) (script [False, True]))))
     \<le> Capacity (fst (snd (PushBack T_copy (mk_vector [1, 2, 3] 3) (ByCopy 7) (script [False, True])))) \<and>
   assign_copy 0 (mk_vector [1, 2, 3] 3) 1 (mk_vector [4, 5] 3) (script [False, True]) =
     (Throw element_exception, mk_vector [4, 2, 3] 3, \<lparr>faults = [], log = [CopyAssign 4]\<rparr>) \<and>
   Size (fst (snd (assign_copy 0 (mk_vector [1, 2, 3] 3) 1 (mk_vector [4, 5] 3) (script [False, True]))))
     \<le> Capacity (fst (snd (assign_copy 0 (mk_vector [1, 2, 3] 3) 1 (mk_vector [4, 5] 3)
                               (script [False, True])))) \<and>
   Erase T_copy (mk_vector [1, 2, 3] 3) 1 (script [False, True]) =
     (Ok 1, mk_vector [1, 3] 3, \<lparr>faults = [True], log = [MoveAssign 3, Destroy 0]\<rparr>) \<and>
   Size (fst (snd (Erase T_copy (mk_vector [1, 2, 3] 3) 1 (script [False, True]))))
     \<le> Capacity (fst (snd (Erase T_copy (mk_vector [1, 2, 3] 3) 1 (script [False, True]))))"
proof -
  have s: "Vector_sized T_copy 2 (script []) =
     (Ok (mk_vector [0, 0] 2), \<lparr>faults = [], log = [New 2, ValueInit 0, ValueInit 0]\<rparr>)"
    by code_simp
  have c: "Vector_copy (mk_vector [4, 5] 3) (script []) =
     (Ok (mk_vector [4, 5] 2), \<lparr>faults = [], log = [New 2, Copy 4, Copy 5]\<rparr>)"
    by code_simp
  have i: "Size (mk_vector [1, 2, 3 :: int] 3) \<le> Capacity (mk_vector [1, 2, 3 :: int] 3)"
    by code_simp
  have j: "Size (mk_vector [4, 5 :: int] 3) \<le> Capacity (mk_vector [4, 5 :: int] 3)"
    by code_simp
  have p: "PushBack T_copy (mk_vector [1, 2, 3] 3) (ByCopy 7) (script [False, True]) =
     (Throw element_exception, mk_vector [1, 2, 3] 3, \<lparr>faults = [], log = [New 6, Delete 6]\<rparr>)"
    by code_simp
  have a: "assign_copy 0 (mk_vector [1, 2, 3] 3) 1 (mk_vector [4, 5] 3) (script [False, True]) =
     (Throw element_exception, mk_vector [4, 2, 3] 3, \<lparr>faults = [], log = [CopyAssign 4]\<rparr>)"
    by code_simp
  have e: "Erase T_copy (mk_vector [1, 2, 3] 3) 1 (script [False, True]) =
     (Ok 1, mk_vector [1, 3] 3, \<lparr>faults = [True], log = [MoveAssign 3, Destroy 0]\<rparr>)"
    by code_simp
  from size_le_capacity [where T = T_copy and n = 2 and w = "script []"
      and other = "mk_vector [4, 5] 3" and this = "mk_vector [1, 2, 3] 3"] s c
  have ctors: "Size (mk_vector [0, 0 :: int] 2) \<le> Capacity (mk_vector [0, 0 :: int] 2) \<and>
               Size (mk_vector [4, 5 :: int] 2) \<le> Capacity (mk_vector [4, 5 :: int] 2)"
    by simp
  from size_le_capacity [where T = T_copy and n = 2 and w = "script [False, True]"
      and other = "mk_vector [4, 5] 3" and this = "mk_vector [1, 2, 3] 3"
      and a = 0 and b = 1 and arg = "ByCopy 7" and pos = 1] i j
  have ops: "Size (fst (snd (PushBack T_copy (mk_vector [1, 2, 3] 3) (ByCopy 7) (script [False, True]))))
     \<le> Capacity (fst (snd (PushBack T_copy (mk_vector [1, 2, 3] 3) (ByCopy 7) (script [False, True])))) \<and>
   Size (fst (snd (assign_copy 0 (mk_vector [1, 2, 3] 3) 1 (mk_vector [4, 5] 3) (script [False, True]))))
     \<le> Capacity (fst (snd (assign_copy 0 (mk_vector [1, 2, 3] 3) 1 (mk_vector [4, 5] 3)
                               (script [False, True])))) \<and>
   Size (fst (snd (Erase T_copy (mk_vector [1, 2, 3] 3) 1 (script [False, True]))))
     \<le> Capacity (fst (snd (Erase T_copy (mk_vector [1, 2, 3] 3) 1 (script [False, True]))))"
    by blast
  from s c i j p a e ctors ops show ?thesis
    by (simp only: simp_thms)
qed

end
